theory Spec2Isabelle
  imports Complex_Main "HOL-Library.Word" "HOL-Library.Sublist"
begin

unbundle bit_operations_syntax

section \<open>Values shared by the readers and the writer\<close>

text \<open>
  The file under study is \<^verbatim>\<open>python/kiss_matcher/io_utils.py\<close>. A file on disk is the
  list of its bytes. A Python \<^verbatim>\<open>str\<close> is the list of its code points. A Python
  \<^verbatim>\<open>float\<close> is a finite rational, an infinity or a NaN; the sign of zero, the payload of
  a NaN and the rounding of a decimal literal to the nearest double are not represented.
\<close>

type_synonym byte = "8 word"
type_synonym str = "nat list"

datatype pyfloat = Fin rat | PInf | NInf | NaN

datatype error =
    UnicodeDecodeError
  | IndexError
  | ValueError_literal
  | ValueError_pcd_format
  | ValueError_ply_xyz
  | ValueError_ply_format
  | Struct_error
  | Reshape_error

text \<open>A point is the Python list \<^verbatim>\<open>[x, y, z]\<close>; a cloud is the list of its points.\<close>

type_synonym point = "pyfloat list"

subsection \<open>IEEE-754 single precision\<close>

text \<open>The value of a 32-bit pattern: sign bit 31, exponent bits 30..23, fraction bits 22..0.\<close>

definition float_of_bits :: "32 word \<Rightarrow> pyfloat" where
  "float_of_bits w =
     (let s = bit w 31;
          e = unat (take_bit 8 (drop_bit 23 w));
          m = unat (take_bit 23 w)
      in if e = 255 then (if m = 0 then (if s then NInf else PInf) else NaN)
         else let mag = (if e = 0 then of_nat m / 2 ^ 149
                         else of_nat (2 ^ 23 + m) * 2 ^ e / 2 ^ 150)
              in Fin (if s then - mag else mag))"

text \<open>\<^verbatim>\<open>struct.unpack('<f', b)\<close> and \<^verbatim>\<open>struct.unpack('>f', b)\<close>: exactly four bytes, else
  \<^verbatim>\<open>struct.error\<close>.\<close>

definition word_of_bytes_le :: "byte \<Rightarrow> byte \<Rightarrow> byte \<Rightarrow> byte \<Rightarrow> 32 word" where
  "word_of_bytes_le b0 b1 b2 b3 =
     push_bit 24 (ucast b3) OR push_bit 16 (ucast b2) OR push_bit 8 (ucast b1) OR ucast b0"

fun unpack_le_f :: "byte list \<Rightarrow> pyfloat option" where
  "unpack_le_f [b0, b1, b2, b3] = Some (float_of_bits (word_of_bytes_le b0 b1 b2 b3))"
| "unpack_le_f _ = None"

fun unpack_be_f :: "byte list \<Rightarrow> pyfloat option" where
  "unpack_be_f [b0, b1, b2, b3] = Some (float_of_bits (word_of_bytes_le b3 b2 b1 b0))"
| "unpack_be_f _ = None"

section \<open>read_bin\<close>

text \<open>\<^verbatim>\<open>np.fromfile(bin_path, dtype=np.float32)\<close> reads as many whole four-byte items as the
  file holds, in the byte order of the host (little-endian here).\<close>

fun np_fromfile_f32 :: "byte list \<Rightarrow> pyfloat list" where
  "np_fromfile_f32 (b0 # b1 # b2 # b3 # rest) =
     float_of_bits (word_of_bytes_le b0 b1 b2 b3) # np_fromfile_f32 rest"
| "np_fromfile_f32 _ = []"

text \<open>\<^verbatim>\<open>scan.reshape((-1, 4))\<close> raises a ValueError unless the size is a multiple of 4.\<close>

fun rows4 :: "'a list \<Rightarrow> 'a list list" where
  "rows4 (a # b # c # d # rest) = [a, b, c, d] # rows4 rest"
| "rows4 _ = []"

definition np_reshape4 :: "'a list \<Rightarrow> error + 'a list list" where
  "np_reshape4 xs = (if length xs mod 4 = 0 then Inr (rows4 xs) else Inl Reshape_error)"

definition read_bin :: "byte list \<Rightarrow> error + point list" where
  "read_bin file =
     (let scan = np_fromfile_f32 file
      in case np_reshape4 scan of
           Inl e \<Rightarrow> Inl e
         | Inr scan' \<Rightarrow> Inr (map (take 3) scan'))"

section \<open>Python text\<close>

subsection \<open>Bytes to text\<close>

text \<open>\<^verbatim>\<open>bytes.decode('utf-8')\<close> with strict error handling: overlong forms, surrogates
  and code points above U+10FFFF are rejected. \<open>None\<close> is \<^verbatim>\<open>UnicodeDecodeError\<close>.\<close>

definition is_cont :: "nat \<Rightarrow> bool" where
  "is_cont c = (128 \<le> c \<and> c < 192)"

fun utf8_cps :: "nat list \<Rightarrow> str option" where
  "utf8_cps [] = Some []"
| "utf8_cps (b # bs) =
     (if b < 128 then map_option ((#) b) (utf8_cps bs)
      else if 194 \<le> b \<and> b < 224 then
        (case bs of
           c1 # r \<Rightarrow>
             if is_cont c1
             then map_option ((#) ((b - 192) * 64 + (c1 - 128))) (utf8_cps r)
             else None
         | _ \<Rightarrow> None)
      else if 224 \<le> b \<and> b < 240 then
        (case bs of
           c1 # c2 # r \<Rightarrow>
             if is_cont c1 \<and> is_cont c2
                \<and> (if b = 224 then 160 \<le> c1 else True)
                \<and> (if b = 237 then c1 < 160 else True)
             then map_option ((#) ((b - 224) * 4096 + (c1 - 128) * 64 + (c2 - 128)))
                    (utf8_cps r)
             else None
         | _ \<Rightarrow> None)
      else if 240 \<le> b \<and> b < 245 then
        (case bs of
           c1 # c2 # c3 # r \<Rightarrow>
             if is_cont c1 \<and> is_cont c2 \<and> is_cont c3
                \<and> (if b = 240 then 144 \<le> c1 else True)
                \<and> (if b = 244 then c1 < 144 else True)
             then map_option
                    ((#) ((b - 240) * 262144 + (c1 - 128) * 4096 + (c2 - 128) * 64 + (c3 - 128)))
                    (utf8_cps r)
             else None
         | _ \<Rightarrow> None)
      else None)"

definition utf8_decode :: "byte list \<Rightarrow> str option" where
  "utf8_decode bs = utf8_cps (map unat bs)"

text \<open>\<^verbatim>\<open>len(line.encode('utf-8'))\<close>.\<close>

definition utf8_len :: "str \<Rightarrow> nat" where
  "utf8_len s =
     sum_list (map (\<lambda>c. if c < 128 then 1 else if c < 2048 then 2
                            else if c < 65536 then 3 else 4) s)"

text \<open>A string literal of the source, as code points; an ASCII text, as file bytes.\<close>

definition lit :: "string \<Rightarrow> str" where
  "lit s = map of_char s"

definition ascii_bytes :: "str \<Rightarrow> byte list" where
  "ascii_bytes s = map of_nat s"

subsection \<open>strip, split, startswith, upper\<close>

text \<open>The code points for which \<^verbatim>\<open>str.isspace\<close> holds; \<^verbatim>\<open>str.strip()\<close> and
  \<^verbatim>\<open>str.split()\<close> without arguments use them.\<close>

definition is_space :: "nat \<Rightarrow> bool" where
  "is_space c =
     ((9 \<le> c \<and> c \<le> 13) \<or> (28 \<le> c \<and> c \<le> 32) \<or> c = 133 \<or> c = 160 \<or> c = 5760
      \<or> (8192 \<le> c \<and> c \<le> 8202) \<or> c = 8232 \<or> c = 8233 \<or> c = 8239 \<or> c = 8287
      \<or> c = 12288)"

definition py_strip :: "str \<Rightarrow> str" where
  "py_strip s = rev (dropWhile is_space (rev (dropWhile is_space s)))"

text \<open>\<open>split_from cur s\<close>: the tokens of \<open>s\<close>, where \<open>cur\<close> holds, reversed, the characters
  of the token being read.\<close>

fun split_from :: "str \<Rightarrow> str \<Rightarrow> str list" where
  "split_from cur [] = (if cur = [] then [] else [rev cur])"
| "split_from cur (c # cs) =
     (if is_space c then (if cur = [] then split_from [] cs else rev cur # split_from [] cs)
      else split_from (c # cur) cs)"

definition py_split :: "str \<Rightarrow> str list" where
  "py_split s = split_from [] s"

definition startswith :: "str \<Rightarrow> str \<Rightarrow> bool" where
  "startswith s p = (take (length p) s = p)"

text \<open>\<^verbatim>\<open>str.upper()\<close>, as far as a comparison with an ASCII literal can tell: besides the
  ASCII lower-case letters only U+0131 and U+017F have an upper-case form made of ASCII
  letters.\<close>

definition py_upper :: "str \<Rightarrow> str" where
  "py_upper s =
     map (\<lambda>c. if 97 \<le> c \<and> c \<le> 122 then c - 32
               else if c = 305 then 73 else if c = 383 then 83 else c) s"

subsection \<open>int and float of a string\<close>

text \<open>A run of ASCII digits in which single underscores may separate digits; the result is
  the list of digit values. Decimal digits outside ASCII, which Python accepts too, are not
  recognised, and the length limit of \<^verbatim>\<open>int\<close> on very long literals is not represented.\<close>

definition is_digit :: "nat \<Rightarrow> bool" where
  "is_digit c = (48 \<le> c \<and> c \<le> 57)"

fun digitpart :: "str \<Rightarrow> nat list option" where
  "digitpart [] = None"
| "digitpart [c] = (if is_digit c then Some [c - 48] else None)"
| "digitpart (c # d # cs) =
     (if is_digit c
      then (if d = 95 then map_option ((#) (c - 48)) (digitpart cs)
            else map_option ((#) (c - 48)) (digitpart (d # cs)))
      else None)"

definition val_digits :: "nat list \<Rightarrow> nat" where
  "val_digits ds = foldl (\<lambda>a d. 10 * a + d) 0 ds"

text \<open>An optional sign followed by a digit part.\<close>

definition signed_digits :: "str \<Rightarrow> int option" where
  "signed_digits s =
     (case s of
        [] \<Rightarrow> None
      | c # cs \<Rightarrow>
          if c = 45 then map_option (\<lambda>ds. - int (val_digits ds)) (digitpart cs)
          else if c = 43 then map_option (\<lambda>ds. int (val_digits ds)) (digitpart cs)
          else map_option (\<lambda>ds. int (val_digits ds)) (digitpart s))"

text \<open>\<^verbatim>\<open>int(s)\<close>; \<open>None\<close> is \<^verbatim>\<open>ValueError\<close>.\<close>

definition py_int :: "str \<Rightarrow> int option" where
  "py_int s = signed_digits (py_strip s)"

text \<open>\<open>split_at P s\<close> cuts \<open>s\<close> at its first character satisfying \<open>P\<close>.\<close>

fun split_at :: "(nat \<Rightarrow> bool) \<Rightarrow> str \<Rightarrow> str \<times> str option" where
  "split_at P [] = ([], None)"
| "split_at P (c # cs) =
     (if P c then ([], Some cs) else (case split_at P cs of (a, r) \<Rightarrow> (c # a, r)))"

definition ascii_lower :: "str \<Rightarrow> str" where
  "ascii_lower s = map (\<lambda>c. if 65 \<le> c \<and> c \<le> 90 then c + 32 else c) s"

text \<open>The grammar of \<^verbatim>\<open>float(s)\<close>: \<open>[digitpart] "." digitpart | digitpart ["."]\<close>, then an
  optional exponent.\<close>

definition float_number :: "str \<Rightarrow> rat option" where
  "float_number s =
     (case split_at (\<lambda>c. c = 46) s of
        (ip, None) \<Rightarrow> map_option (\<lambda>ds. of_nat (val_digits ds)) (digitpart ip)
      | (ip, Some fp) \<Rightarrow>
          if ip = []
          then map_option (\<lambda>ds. of_nat (val_digits ds) / 10 ^ length ds) (digitpart fp)
          else (case digitpart ip of
                  None \<Rightarrow> None
                | Some ids \<Rightarrow>
                    if fp = [] then Some (of_nat (val_digits ids))
                    else (case digitpart fp of
                            None \<Rightarrow> None
                          | Some fds \<Rightarrow>
                              Some (of_nat (val_digits ids)
                                    + of_nat (val_digits fds) / 10 ^ length fds))))"

definition float_exponent :: "str option \<Rightarrow> int option" where
  "float_exponent ex = (case ex of None \<Rightarrow> Some 0 | Some s \<Rightarrow> signed_digits s)"

definition float_abs :: "str \<Rightarrow> pyfloat option" where
  "float_abs s =
     (if ascii_lower s = lit ''inf'' \<or> ascii_lower s = lit ''infinity'' then Some PInf
      else if ascii_lower s = lit ''nan'' then Some NaN
      else (case split_at (\<lambda>c. c = 101 \<or> c = 69) s of
              (mant, ex) \<Rightarrow>
                (case float_exponent ex of
                   None \<Rightarrow> None
                 | Some e \<Rightarrow>
                     (case float_number mant of
                        None \<Rightarrow> None
                      | Some m \<Rightarrow>
                          Some (Fin (if 0 \<le> e then m * 10 ^ nat e
                                     else m / 10 ^ nat (- e)))))))"

definition float_neg :: "pyfloat \<Rightarrow> pyfloat" where
  "float_neg v = (case v of Fin x \<Rightarrow> Fin (- x) | PInf \<Rightarrow> NInf | NInf \<Rightarrow> PInf | NaN \<Rightarrow> NaN)"

text \<open>\<^verbatim>\<open>float(s)\<close>; \<open>None\<close> is \<^verbatim>\<open>ValueError\<close>.\<close>

definition py_float :: "str \<Rightarrow> pyfloat option" where
  "py_float s =
     (case py_strip s of
        [] \<Rightarrow> None
      | c # cs \<Rightarrow>
          if c = 45 then map_option float_neg (float_abs cs)
          else if c = 43 then float_abs cs
          else float_abs (c # cs))"

text \<open>\<^verbatim>\<open>[int(x) for x in xs]\<close> and \<^verbatim>\<open>[float(x) for x in xs]\<close>: the first token that does
  not parse raises.\<close>

fun py_ints :: "str list \<Rightarrow> error + int list" where
  "py_ints [] = Inr []"
| "py_ints (x # xs) =
     (case py_int x of
        None \<Rightarrow> Inl ValueError_literal
      | Some v \<Rightarrow> (case py_ints xs of Inl e \<Rightarrow> Inl e | Inr vs \<Rightarrow> Inr (v # vs)))"

fun py_floats :: "str list \<Rightarrow> error + pyfloat list" where
  "py_floats [] = Inr []"
| "py_floats (x # xs) =
     (case py_float x of
        None \<Rightarrow> Inl ValueError_literal
      | Some v \<Rightarrow> (case py_floats xs of Inl e \<Rightarrow> Inl e | Inr vs \<Rightarrow> Inr (v # vs)))"

subsection \<open>Lines of a file\<close>

text \<open>\<^verbatim>\<open>f.readline()\<close> on a file opened in binary mode: the bytes up to and including the
  next line feed, or all that is left; at the end of the file, the empty bytes. The result is
  the line and the rest of the file.\<close>

fun readline :: "byte list \<Rightarrow> byte list \<times> byte list" where
  "readline [] = ([], [])"
| "readline (b # bs) =
     (if b = 10 then ([b], bs) else (case readline bs of (l, r) \<Rightarrow> (b # l, r)))"

text \<open>\<^verbatim>\<open>f.readlines()\<close> on a file opened in text mode: universal newlines, so that a
  line ends at \<open>\\n\<close>, \<open>\\r\\n\<close> or \<open>\\r\<close>, each handed over as \<open>\\n\<close>. \<open>cur\<close> holds,
  reversed, the characters of the line being read.\<close>

fun lines_from :: "str \<Rightarrow> str \<Rightarrow> str list" where
  "lines_from cur [] = (if cur = [] then [] else [rev cur])"
| "lines_from cur (c # cs) =
     (if c = 10 then rev (10 # cur) # lines_from [] cs
      else if c = 13 then
        (case cs of
           [] \<Rightarrow> [rev (10 # cur)]
         | d # ds \<Rightarrow>
             if d = 10 then rev (10 # cur) # lines_from [] ds
             else rev (10 # cur) # lines_from [] cs)
      else lines_from (c # cur) cs)"

definition text_readlines :: "byte list \<Rightarrow> error + str list" where
  "text_readlines file =
     (case utf8_decode file of
        None \<Rightarrow> Inl UnicodeDecodeError
      | Some s \<Rightarrow> Inr (lines_from [] s))"

section \<open>read_pcd\<close>

text \<open>The dictionary \<^verbatim>\<open>header_info\<close>: the key \<^verbatim>\<open>k\<close> is the field \<open>hi_k\<close>, \<open>None\<close> while
  the key is absent.\<close>

record header_info =
  hi_version :: "str option"
  hi_fields :: "str list option"
  hi_size :: "int list option"
  hi_type :: "str list option"
  hi_count :: "int list option"
  hi_width :: "int option"
  hi_height :: "int option"
  hi_viewpoint :: "pyfloat list option"
  hi_points :: "int option"
  hi_data :: "str option"

definition empty_info :: header_info where
  "empty_info =
     \<lparr>hi_version = None, hi_fields = None, hi_size = None, hi_type = None, hi_count = None,
      hi_width = None, hi_height = None, hi_viewpoint = None, hi_points = None,
      hi_data = None\<rparr>"

text \<open>\<^verbatim>\<open>xs[1]\<close>, \<^verbatim>\<open>xs[1:]\<close> and \<^verbatim>\<open>xs[-1]\<close>.\<close>

definition item1 :: "'a list \<Rightarrow> error + 'a" where
  "item1 xs = (case xs of _ # v # _ \<Rightarrow> Inr v | _ \<Rightarrow> Inl IndexError)"

definition item_last :: "'a list \<Rightarrow> error + 'a" where
  "item_last xs = (if xs = [] then Inl IndexError else Inr (last xs))"

definition int_item1 :: "str list \<Rightarrow> error + int" where
  "int_item1 xs =
     (case item1 xs of
        Inl e \<Rightarrow> Inl e
      | Inr v \<Rightarrow> (case py_int v of None \<Rightarrow> Inl ValueError_literal | Some n \<Rightarrow> Inr n))"

text \<open>The body of the header loop after \<^verbatim>\<open>header_lines.append(line_str)\<close>: the chain of
  \<^verbatim>\<open>if\<close>/\<^verbatim>\<open>elif\<close> on the stripped line. The result is the error raised, or the updated
  dictionary together with \<open>True\<close> when the \<^verbatim>\<open>break\<close> of the \<^verbatim>\<open>DATA\<close> branch was taken.\<close>

definition pcd_header_line :: "str \<Rightarrow> header_info \<Rightarrow> error + (bool \<times> header_info)" where
  "pcd_header_line line_str info =
     (if startswith line_str (lit ''VERSION'') then
        (case item1 (py_split line_str) of
           Inl e \<Rightarrow> Inl e
         | Inr v \<Rightarrow> Inr (False, info\<lparr>hi_version := Some v\<rparr>))
      else if startswith line_str (lit ''FIELDS'') then
        Inr (False, info\<lparr>hi_fields := Some (tl (py_split line_str))\<rparr>)
      else if startswith line_str (lit ''SIZE'') then
        (case py_ints (tl (py_split line_str)) of
           Inl e \<Rightarrow> Inl e
         | Inr v \<Rightarrow> Inr (False, info\<lparr>hi_size := Some v\<rparr>))
      else if startswith line_str (lit ''TYPE'') then
        Inr (False, info\<lparr>hi_type := Some (tl (py_split line_str))\<rparr>)
      else if startswith line_str (lit ''COUNT'') then
        (case py_ints (tl (py_split line_str)) of
           Inl e \<Rightarrow> Inl e
         | Inr v \<Rightarrow> Inr (False, info\<lparr>hi_count := Some v\<rparr>))
      else if startswith line_str (lit ''WIDTH'') then
        (case int_item1 (py_split line_str) of
           Inl e \<Rightarrow> Inl e
         | Inr v \<Rightarrow> Inr (False, info\<lparr>hi_width := Some v\<rparr>))
      else if startswith line_str (lit ''HEIGHT'') then
        (case int_item1 (py_split line_str) of
           Inl e \<Rightarrow> Inl e
         | Inr v \<Rightarrow> Inr (False, info\<lparr>hi_height := Some v\<rparr>))
      else if startswith line_str (lit ''VIEWPOINT'') then
        (case py_floats (tl (py_split line_str)) of
           Inl e \<Rightarrow> Inl e
         | Inr v \<Rightarrow> Inr (False, info\<lparr>hi_viewpoint := Some v\<rparr>))
      else if startswith line_str (lit ''POINTS'') then
        (case int_item1 (py_split line_str) of
           Inl e \<Rightarrow> Inl e
         | Inr v \<Rightarrow> Inr (False, info\<lparr>hi_points := Some v\<rparr>))
      else if startswith line_str (lit ''DATA'') then
        (case item1 (py_split line_str) of
           Inl e \<Rightarrow> Inl e
         | Inr v \<Rightarrow> Inr (True, info\<lparr>hi_data := Some v\<rparr>))
      else Inr (False, info))"

text \<open>The loop \<^verbatim>\<open>while True\<close> that reads the header, on the bytes not yet read. A line
  that is not UTF-8 leaves the loop without being recorded. The loop has no other exit than
  this one, the \<^verbatim>\<open>DATA\<close> line and an exception, so it is a partial function: \<open>None\<close> is
  a loop that runs for ever.\<close>

partial_function (option) pcd_header_loop ::
  "byte list \<Rightarrow> header_info \<Rightarrow> str list \<Rightarrow> (error + header_info \<times> str list) option"
where
  "pcd_header_loop f info header_lines =
     (case readline f of
        (line, rest) \<Rightarrow>
          (case utf8_decode line of
             None \<Rightarrow> Some (Inr (info, header_lines))
           | Some s \<Rightarrow>
               (case pcd_header_line (py_strip s) info of
                  Inl e \<Rightarrow> Some (Inl e)
                | Inr (stop, info') \<Rightarrow>
                    if stop then Some (Inr (info', header_lines @ [py_strip s]))
                    else pcd_header_loop rest info' (header_lines @ [py_strip s]))))"

definition header_size :: "str list \<Rightarrow> nat" where
  "header_size header_lines = sum_list (map (\<lambda>line. utf8_len line + 1) header_lines)"

subsection \<open>ASCII payload\<close>

text \<open>The search for the first line that starts with \<^verbatim>\<open>DATA\<close>; \<open>i\<close> is the index of the
  head of the list. Without such a line \<^verbatim>\<open>data_start_idx\<close> stays 0.\<close>

fun data_start_idx :: "str list \<Rightarrow> nat \<Rightarrow> nat" where
  "data_start_idx [] i = 0"
| "data_start_idx (line # lines) i =
     (if startswith (py_strip line) (lit ''DATA'') then i + 1
      else data_start_idx lines (i + 1))"

text \<open>The loop over \<^verbatim>\<open>lines[data_start_idx:]\<close>, returning the points appended.\<close>

fun pcd_ascii_points :: "str list \<Rightarrow> error + point list" where
  "pcd_ascii_points [] = Inr []"
| "pcd_ascii_points (l # ls) =
     (let line = py_strip l
      in if line \<noteq> [] then
           (case py_floats (py_split line) of
              Inl e \<Rightarrow> Inl e
            | Inr values \<Rightarrow>
                (case pcd_ascii_points ls of
                   Inl e \<Rightarrow> Inl e
                 | Inr points \<Rightarrow>
                     Inr (if 3 \<le> length values then take 3 values # points else points)))
         else pcd_ascii_points ls)"

definition pcd_ascii :: "byte list \<Rightarrow> error + point list" where
  "pcd_ascii file =
     (case text_readlines file of
        Inl e \<Rightarrow> Inl e
      | Inr lines \<Rightarrow> pcd_ascii_points (drop (data_start_idx lines 0) lines))"

subsection \<open>Binary payload\<close>

text \<open>\<^verbatim>\<open>fields.index(v) if v in fields else d\<close>.\<close>

fun index_of :: "'a list \<Rightarrow> 'a \<Rightarrow> nat" where
  "index_of [] v = 0"
| "index_of (x # xs) v = (if x = v then 0 else index_of xs v + 1)"

definition index_or :: "'a list \<Rightarrow> 'a \<Rightarrow> nat \<Rightarrow> nat" where
  "index_or xs v d = (if v \<in> set xs then index_of xs v else d)"

text \<open>The inner loop \<^verbatim>\<open>for field in fields\<close>: each round reads four bytes; a read that
  does not yield a number ends the loop (the bare \<^verbatim>\<open>except: break\<close>), the bytes it took
  staying consumed. The result is \<^verbatim>\<open>field_values\<close> and the bytes not yet read.\<close>

fun pcd_read_fields :: "'a list \<Rightarrow> byte list \<Rightarrow> pyfloat list \<times> byte list" where
  "pcd_read_fields [] f = ([], f)"
| "pcd_read_fields (fld # flds) f =
     (case unpack_le_f (take 4 f) of
        None \<Rightarrow> ([], drop 4 f)
      | Some v \<Rightarrow> (case pcd_read_fields flds (drop 4 f) of (vs, f') \<Rightarrow> (v # vs, f')))"

text \<open>The outer loop \<^verbatim>\<open>for _ in range(num_points)\<close>. A record of at least three values
  is appended; an index beyond the values read raises \<^verbatim>\<open>IndexError\<close>.\<close>

fun pcd_binary_points ::
  "nat \<Rightarrow> 'a list \<Rightarrow> nat \<Rightarrow> nat \<Rightarrow> nat \<Rightarrow> byte list \<Rightarrow> error + point list" where
  "pcd_binary_points 0 flds x_idx y_idx z_idx f = Inr []"
| "pcd_binary_points (Suc n) flds x_idx y_idx z_idx f =
     (case pcd_read_fields flds f of
        (field_values, f') \<Rightarrow>
          if 3 \<le> length field_values then
            (if x_idx < length field_values \<and> y_idx < length field_values
                \<and> z_idx < length field_values
             then (case pcd_binary_points n flds x_idx y_idx z_idx f' of
                     Inl e \<Rightarrow> Inl e
                   | Inr points \<Rightarrow>
                       Inr ([field_values ! x_idx, field_values ! y_idx, field_values ! z_idx]
                            # points))
             else Inl IndexError)
          else pcd_binary_points n flds x_idx y_idx z_idx f')"

definition info_points :: "header_info \<Rightarrow> int" where
  "info_points info = (case hi_points info of None \<Rightarrow> 0 | Some n \<Rightarrow> n)"

definition info_fields :: "header_info \<Rightarrow> str list" where
  "info_fields info = (case hi_fields info of None \<Rightarrow> [] | Some fs \<Rightarrow> fs)"

definition info_data :: "header_info \<Rightarrow> str" where
  "info_data info = (case hi_data info of None \<Rightarrow> [] | Some d \<Rightarrow> d)"

definition pcd_binary :: "byte list \<Rightarrow> nat \<Rightarrow> header_info \<Rightarrow> error + point list" where
  "pcd_binary file hsize info =
     (let num_points = info_points info;
          flds = info_fields info;
          x_idx = index_or flds (lit ''x'') 0;
          y_idx = index_or flds (lit ''y'') 1;
          z_idx = index_or flds (lit ''z'') 2
      in pcd_binary_points (nat num_points) flds x_idx y_idx z_idx (drop hsize file))"

text \<open>The part of \<^verbatim>\<open>read_pcd\<close> after the header loop.\<close>

definition pcd_payload :: "byte list \<Rightarrow> header_info \<Rightarrow> str list \<Rightarrow> error + point list" where
  "pcd_payload file info header_lines =
     (if py_upper (info_data info) = lit ''ASCII'' then pcd_ascii file
      else if py_upper (info_data info) = lit ''BINARY''
      then pcd_binary file (header_size header_lines) info
      else Inl ValueError_pcd_format)"

text \<open>\<open>None\<close>: the call does not return. \<open>Some (Inl e)\<close>: it raises \<open>e\<close>.\<close>

definition read_pcd :: "byte list \<Rightarrow> (error + point list) option" where
  "read_pcd file =
     (case pcd_header_loop file empty_info [] of
        None \<Rightarrow> None
      | Some (Inl e) \<Rightarrow> Some (Inl e)
      | Some (Inr (info, header_lines)) \<Rightarrow> Some (pcd_payload file info header_lines))"

section \<open>read_ply\<close>

text \<open>The loop \<^verbatim>\<open>while True\<close> that reads the header, on the bytes not yet read: a line that
  is not UTF-8 raises, the line \<^verbatim>\<open>end_header\<close> ends the loop. The result is
  \<^verbatim>\<open>header_lines\<close> and the bytes that follow the header; \<open>None\<close> is a loop that runs for
  ever.\<close>

partial_function (option) ply_header_loop ::
  "byte list \<Rightarrow> str list \<Rightarrow> (error + str list \<times> byte list) option"
where
  "ply_header_loop f header_lines =
     (case readline f of
        (line, rest) \<Rightarrow>
          (case utf8_decode line of
             None \<Rightarrow> Some (Inl UnicodeDecodeError)
           | Some s \<Rightarrow>
               if py_strip s = lit ''end_header''
               then Some (Inr (header_lines @ [py_strip s], rest))
               else ply_header_loop rest (header_lines @ [py_strip s])))"

text \<open>The loop \<^verbatim>\<open>for line in header_lines\<close> on the state
  \<^verbatim>\<open>(vertex_count, format_type, properties)\<close>.\<close>

fun ply_parse_header ::
  "str list \<Rightarrow> int \<times> str \<times> str list \<Rightarrow> error + (int \<times> str \<times> str list)" where
  "ply_parse_header [] st = Inr st"
| "ply_parse_header (line # lines) (vertex_count, format_type, properties) =
     (if startswith line (lit ''element vertex'') then
        (case item_last (py_split line) of
           Inl e \<Rightarrow> Inl e
         | Inr v \<Rightarrow>
             (case py_int v of
                None \<Rightarrow> Inl ValueError_literal
              | Some n \<Rightarrow> ply_parse_header lines (n, format_type, properties)))
      else if startswith line (lit ''format'') then
        (case item1 (py_split line) of
           Inl e \<Rightarrow> Inl e
         | Inr v \<Rightarrow> ply_parse_header lines (vertex_count, v, properties))
      else if startswith line (lit ''property float'')
              \<or> startswith line (lit ''property double'') then
        (case item_last (py_split line) of
           Inl e \<Rightarrow> Inl e
         | Inr prop_name \<Rightarrow>
             ply_parse_header lines (vertex_count, format_type, properties @ [prop_name]))
      else ply_parse_header lines (vertex_count, format_type, properties))"

text \<open>\<^verbatim>\<open>values[i]\<close> for an index that may lie beyond the list.\<close>

definition item :: "'a list \<Rightarrow> nat \<Rightarrow> error + 'a" where
  "item xs i = (if i < length xs then Inr (xs ! i) else Inl IndexError)"

definition float_item :: "str list \<Rightarrow> nat \<Rightarrow> error + pyfloat" where
  "float_item values i =
     (case item values i of
        Inl e \<Rightarrow> Inl e
      | Inr v \<Rightarrow> (case py_float v of None \<Rightarrow> Inl ValueError_literal | Some x \<Rightarrow> Inr x))"

text \<open>The ASCII payload: \<^verbatim>\<open>for _ in range(vertex_count)\<close>, one line each.\<close>

fun ply_ascii_points ::
  "nat \<Rightarrow> nat \<Rightarrow> nat \<Rightarrow> nat \<Rightarrow> nat \<Rightarrow> byte list \<Rightarrow> error + point list" where
  "ply_ascii_points 0 nprops x_idx y_idx z_idx f = Inr []"
| "ply_ascii_points (Suc n) nprops x_idx y_idx z_idx f =
     (case readline f of
        (line, rest) \<Rightarrow>
          (case utf8_decode line of
             None \<Rightarrow> Inl UnicodeDecodeError
           | Some s \<Rightarrow>
               (let values = py_split (py_strip s)
                in if nprops \<le> length values then
                     (case float_item values x_idx of
                        Inl e \<Rightarrow> Inl e
                      | Inr x \<Rightarrow>
                          (case float_item values y_idx of
                             Inl e \<Rightarrow> Inl e
                           | Inr y \<Rightarrow>
                               (case float_item values z_idx of
                                  Inl e \<Rightarrow> Inl e
                                | Inr z \<Rightarrow>
                                    (case ply_ascii_points n nprops x_idx y_idx z_idx rest of
                                       Inl e \<Rightarrow> Inl e
                                     | Inr points \<Rightarrow> Inr ([x, y, z] # points)))))
                   else ply_ascii_points n nprops x_idx y_idx z_idx rest)))"

text \<open>The inner loop \<^verbatim>\<open>for prop in properties\<close> of the binary payloads: four bytes per
  tracked property, \<^verbatim>\<open>struct.error\<close> when fewer are left. \<open>unpack\<close> is the decoder of the
  byte order.\<close>

fun ply_read_props ::
  "(byte list \<Rightarrow> pyfloat option) \<Rightarrow> 'a list \<Rightarrow> byte list
   \<Rightarrow> error + (pyfloat list \<times> byte list)" where
  "ply_read_props unpack [] f = Inr ([], f)"
| "ply_read_props unpack (prop # props) f =
     (case unpack (take 4 f) of
        None \<Rightarrow> Inl Struct_error
      | Some v \<Rightarrow>
          (case ply_read_props unpack props (drop 4 f) of
             Inl e \<Rightarrow> Inl e
           | Inr (vs, f') \<Rightarrow> Inr (v # vs, f')))"

text \<open>The outer loop \<^verbatim>\<open>for _ in range(vertex_count)\<close> of the binary payloads.\<close>

fun ply_binary_points ::
  "(byte list \<Rightarrow> pyfloat option) \<Rightarrow> nat \<Rightarrow> 'a list \<Rightarrow> nat \<Rightarrow> nat \<Rightarrow> nat \<Rightarrow> byte list
   \<Rightarrow> error + point list" where
  "ply_binary_points unpack 0 props x_idx y_idx z_idx f = Inr []"
| "ply_binary_points unpack (Suc n) props x_idx y_idx z_idx f =
     (case ply_read_props unpack props f of
        Inl e \<Rightarrow> Inl e
      | Inr (vertex_data, f') \<Rightarrow>
          if x_idx < length vertex_data \<and> y_idx < length vertex_data
             \<and> z_idx < length vertex_data
          then (case ply_binary_points unpack n props x_idx y_idx z_idx f' of
                  Inl e \<Rightarrow> Inl e
                | Inr points \<Rightarrow>
                    Inr ([vertex_data ! x_idx, vertex_data ! y_idx, vertex_data ! z_idx]
                         # points))
          else Inl IndexError)"

text \<open>The part of \<^verbatim>\<open>read_ply\<close> after the header loop: \<open>header_lines\<close> are the lines
  read, \<open>f\<close> the bytes after them.\<close>

definition ply_payload :: "str list \<Rightarrow> byte list \<Rightarrow> error + point list" where
  "ply_payload header_lines f =
     (case ply_parse_header header_lines (0, lit ''ascii'', []) of
        Inl e \<Rightarrow> Inl e
      | Inr (vertex_count, format_type, properties) \<Rightarrow>
          if lit ''x'' \<in> set properties \<and> lit ''y'' \<in> set properties
             \<and> lit ''z'' \<in> set properties
          then
            (let x_idx = index_of properties (lit ''x'');
                 y_idx = index_of properties (lit ''y'');
                 z_idx = index_of properties (lit ''z'')
             in if format_type = lit ''ascii'' then
                  ply_ascii_points (nat vertex_count) (length properties) x_idx y_idx z_idx f
                else if format_type = lit ''binary_little_endian'' then
                  ply_binary_points unpack_le_f (nat vertex_count) properties
                    x_idx y_idx z_idx f
                else if format_type = lit ''binary_big_endian'' then
                  ply_binary_points unpack_be_f (nat vertex_count) properties
                    x_idx y_idx z_idx f
                else Inl ValueError_ply_format)
          else Inl ValueError_ply_xyz)"

text \<open>\<open>None\<close>: the call does not return. \<open>Some (Inl e)\<close>: it raises \<open>e\<close>.\<close>

definition read_ply :: "byte list \<Rightarrow> (error + point list) option" where
  "read_ply file =
     (case ply_header_loop file [] of
        None \<Rightarrow> None
      | Some (Inl e) \<Rightarrow> Some (Inl e)
      | Some (Inr (header_lines, f)) \<Rightarrow> Some (ply_payload header_lines f))"

section \<open>write_pcd\<close>

text \<open>\<^verbatim>\<open>str(n)\<close> for a count \<open>n\<close>: its decimal digits.\<close>

fun str_of_nat :: "nat \<Rightarrow> str" where
  "str_of_nat n = (if n < 10 then [48 + n] else str_of_nat (n div 10) @ [48 + n mod 10])"

text \<open>Rounding to the nearest integer, ties to the even one, of a rational that is not
  negative.\<close>

definition round_half_even :: "rat \<Rightarrow> nat" where
  "round_half_even q =
     (let fl = nat \<lfloor>q\<rfloor>; r = q - of_nat fl
      in if r < 1 / 2 then fl else if 1 / 2 < r then fl + 1
         else if even fl then fl else fl + 1)"

text \<open>The six digits after the point: \<open>k\<close> digits of \<open>n\<close>, with leading zeros.\<close>

fun digits_fixed :: "nat \<Rightarrow> nat \<Rightarrow> str" where
  "digits_fixed 0 n = []"
| "digits_fixed (Suc k) n = digits_fixed k (n div 10) @ [48 + n mod 10]"

text \<open>The format \<^verbatim>\<open>{v:.6f}\<close>.\<close>

definition fmt6 :: "pyfloat \<Rightarrow> str" where
  "fmt6 v =
     (case v of
        Fin x \<Rightarrow>
          (let n = round_half_even (\<bar>x\<bar> * 1000000)
           in (if x < 0 then lit ''-'' else [])
              @ str_of_nat (n div 1000000) @ lit ''.'' @ digits_fixed 6 (n mod 1000000))
      | PInf \<Rightarrow> lit ''inf''
      | NInf \<Rightarrow> lit ''-inf''
      | NaN \<Rightarrow> lit ''nan'')"

definition pcd_header_text :: "nat \<Rightarrow> str" where
  "pcd_header_text num_points =
     lit ''# .PCD v0.7 - Point Cloud Data file format\<newline>''
     @ lit ''VERSION 0.7\<newline>''
     @ lit ''FIELDS x y z\<newline>''
     @ lit ''SIZE 4 4 4\<newline>''
     @ lit ''TYPE F F F\<newline>''
     @ lit ''COUNT 1 1 1\<newline>''
     @ lit ''WIDTH '' @ str_of_nat num_points @ lit ''\<newline>''
     @ lit ''HEIGHT 1\<newline>''
     @ lit ''VIEWPOINT 0 0 0 1 0 0 0\<newline>''
     @ lit ''POINTS '' @ str_of_nat num_points @ lit ''\<newline>''
     @ lit ''DATA ascii\<newline>''"

text \<open>The loop \<^verbatim>\<open>for point in points\<close>; a point of fewer than three coordinates raises
  \<^verbatim>\<open>IndexError\<close>.\<close>

fun pcd_point_lines :: "point list \<Rightarrow> error + str" where
  "pcd_point_lines [] = Inr []"
| "pcd_point_lines (point # points) =
     (if 3 \<le> length point then
        (case pcd_point_lines points of
           Inl e \<Rightarrow> Inl e
         | Inr t \<Rightarrow>
             Inr (fmt6 (point ! 0) @ lit '' '' @ fmt6 (point ! 1) @ lit '' ''
                  @ fmt6 (point ! 2) @ lit ''\<newline>'' @ t))
      else Inl IndexError)"

text \<open>The bytes of the file written: the text is ASCII, one byte per character.\<close>

definition write_pcd :: "point list \<Rightarrow> error + byte list" where
  "write_pcd points =
     (let num_points = length points
      in case pcd_point_lines points of
           Inl e \<Rightarrow> Inl e
         | Inr t \<Rightarrow> Inr (ascii_bytes (pcd_header_text num_points @ t)))"

section \<open>Vocabulary of the properties\<close>

text \<open>The \<open>j\<close>-th single-precision number of a raw file, counted from 0.\<close>

definition f32_at :: "byte list \<Rightarrow> nat \<Rightarrow> pyfloat" where
  "f32_at file j =
     float_of_bits (word_of_bytes_le (file ! (4 * j)) (file ! (4 * j + 1))
                      (file ! (4 * j + 2)) (file ! (4 * j + 3)))"

text \<open>A raw file of four numbers: 1, 2, -1/2 and 0.\<close>

definition bin_example :: "byte list" where
  "bin_example = [0, 0, 128, 63,  0, 0, 0, 64,  0, 0, 0, 191,  0, 0, 0, 0]"

text \<open>A file that starts with the given lines of ASCII text, each ended by a line feed, and
  goes on with the bytes \<open>payload\<close>.\<close>

fun file_lines :: "str list \<Rightarrow> byte list \<Rightarrow> byte list" where
  "file_lines [] payload = payload"
| "file_lines (l # ls) payload = ascii_bytes l @ 10 # file_lines ls payload"

text \<open>A line of ASCII characters without a line feed.\<close>

definition ascii_line :: "str \<Rightarrow> bool" where
  "ascii_line l = list_all (\<lambda>c. c < 128 \<and> c \<noteq> 10) l"

text \<open>A PLY file that declares two vertices of three single-precision properties and
  holds one vertex and a half: the numbers 1, 2, 3, then 4 and two more bytes. Once in
  little-endian and once in big-endian byte order.\<close>

definition ply_trunc_le :: "byte list" where
  "ply_trunc_le =
     file_lines
       [lit ''ply'', lit ''format binary_little_endian 1.0'', lit ''element vertex 2'',
        lit ''property float x'', lit ''property float y'', lit ''property float z'',
        lit ''end_header'']
       [0, 0, 128, 63,  0, 0, 0, 64,  0, 0, 64, 64,  0, 0, 128, 64,  0, 0]"

definition ply_trunc_be :: "byte list" where
  "ply_trunc_be =
     file_lines
       [lit ''ply'', lit ''format binary_big_endian 1.0'', lit ''element vertex 2'',
        lit ''property float x'', lit ''property float y'', lit ''property float z'',
        lit ''end_header'']
       [63, 128, 0, 0,  64, 0, 0, 0,  64, 64, 0, 0,  64, 128, 0, 0,  0, 0]"

text \<open>A binary PCD file of one point with the fields \<^verbatim>\<open>intensity x y z\<close>, cut short by
  three bytes: the first three numbers are whole.\<close>

definition pcd_trunc_index :: "byte list" where
  "pcd_trunc_index =
     file_lines [lit ''FIELDS intensity x y z'', lit ''POINTS 1'', lit ''DATA binary'']
       [0, 0, 128, 63,  0, 0, 0, 64,  0, 0, 64, 64,  0]"

text \<open>An ASCII PLY file whose header declares \<^verbatim>\<open>x\<close> and \<^verbatim>\<open>y\<close> only.\<close>

definition ply_no_z :: "byte list" where
  "ply_no_z =
     file_lines
       [lit ''ply'', lit ''format ascii 1.0'', lit ''element vertex 1'',
        lit ''property float x'', lit ''property float y'', lit ''end_header'',
        lit ''1.0 2.0'']
       []"

text \<open>Two binary PCD files of two declared points. The first has the fields \<^verbatim>\<open>x y z\<close> and
  ends five bytes early. The second has the fields \<^verbatim>\<open>x y z intensity\<close> and ends four bytes
  early, so that the last record lacks its intensity only.\<close>

definition pcd_trunc_three :: "byte list" where
  "pcd_trunc_three =
     file_lines [lit ''FIELDS x y z'', lit ''POINTS 2'', lit ''DATA binary'']
       [0, 0, 128, 63,  0, 0, 0, 64,  0, 0, 64, 64,
        0, 0, 128, 64,  0, 0, 160]"

definition pcd_trunc_four :: "byte list" where
  "pcd_trunc_four =
     file_lines [lit ''FIELDS x y z intensity'', lit ''POINTS 2'', lit ''DATA binary'']
       [0, 0, 128, 63,  0, 0, 0, 64,  0, 0, 64, 64,  0, 0, 0, 63,
        0, 0, 128, 64,  0, 0, 160, 64,  0, 0, 192, 64]"

text \<open>What the header loop of \<open>read_pcd\<close> yields on these two files.\<close>

definition info_three :: header_info where
  "info_three =
     empty_info\<lparr>hi_fields := Some [lit ''x'', lit ''y'', lit ''z''],
                 hi_points := Some 2, hi_data := Some (lit ''binary'')\<rparr>"

definition info_four :: header_info where
  "info_four =
     empty_info\<lparr>hi_fields := Some [lit ''x'', lit ''y'', lit ''z'', lit ''intensity''],
                 hi_points := Some 2, hi_data := Some (lit ''binary'')\<rparr>"

text \<open>A line of ASCII text without a line feed or a carriage return.\<close>

definition text_line :: "str \<Rightarrow> bool" where
  "text_line l = list_all (\<lambda>c. c < 128 \<and> c \<noteq> 10 \<and> c \<noteq> 13) l"

text \<open>An ASCII PCD file that declares one point and holds two lines of numbers.\<close>

definition pcd_ascii_over :: "byte list" where
  "pcd_ascii_over =
     file_lines [lit ''FIELDS x y z'', lit ''POINTS 1'', lit ''DATA ascii'',
                 lit ''1.0 2.0 3.0'', lit ''4.0 5.0 6.0''] []"

definition info_over :: header_info where
  "info_over =
     empty_info\<lparr>hi_fields := Some [lit ''x'', lit ''y'', lit ''z''],
                 hi_points := Some 1, hi_data := Some (lit ''ascii'')\<rparr>"

text \<open>An ASCII PLY file that declares two vertices and holds one line of numbers.\<close>

definition ply_ascii_short :: "byte list" where
  "ply_ascii_short =
     file_lines
       [lit ''ply'', lit ''format ascii 1.0'', lit ''element vertex 2'',
        lit ''property float x'', lit ''property float y'', lit ''property float z'',
        lit ''end_header'', lit ''1.0 2.0 3.0'']
       []"

text \<open>Vertex data as a list of numbers, each given by its four bytes from the least
  significant one, and its two encodings: little-endian, and big-endian with the bytes of
  each number reversed.\<close>

type_synonym quad = "byte \<times> byte \<times> byte \<times> byte"

fun payload_le :: "quad list \<Rightarrow> byte list" where
  "payload_le [] = []"
| "payload_le ((b0, b1, b2, b3) # qs) = b0 # b1 # b2 # b3 # payload_le qs"

fun payload_be :: "quad list \<Rightarrow> byte list" where
  "payload_be [] = []"
| "payload_be ((b0, b1, b2, b3) # qs) = b3 # b2 # b1 # b0 # payload_be qs"

definition quad_value :: "quad \<Rightarrow> pyfloat" where
  "quad_value q = (case q of (b0, b1, b2, b3) \<Rightarrow> float_of_bits (word_of_bytes_le b0 b1 b2 b3))"

text \<open>The numbers 1 to 6, and two PLY files that hold them as two vertices.\<close>

definition six_numbers :: "quad list" where
  "six_numbers =
     [(0, 0, 128, 63), (0, 0, 0, 64), (0, 0, 64, 64),
      (0, 0, 128, 64), (0, 0, 160, 64), (0, 0, 192, 64)]"

definition ply_header_le :: "str list" where
  "ply_header_le =
     [lit ''ply'', lit ''format binary_little_endian 1.0'', lit ''element vertex 2'',
      lit ''property float x'', lit ''property float y'', lit ''property float z'',
      lit ''end_header'']"

definition ply_header_be :: "str list" where
  "ply_header_be =
     [lit ''ply'', lit ''format binary_big_endian 1.0'', lit ''element vertex 2'',
      lit ''property float x'', lit ''property float y'', lit ''property float z'',
      lit ''end_header'']"

definition ply_le :: "byte list" where
  "ply_le = file_lines ply_header_le (payload_le six_numbers)"

definition ply_be :: "byte list" where
  "ply_be = file_lines ply_header_be (payload_be six_numbers)"

(*DEFS-END*)

section \<open>The KITTI reader\<close>

lemma length_np_fromfile_f32: "length (np_fromfile_f32 bs) = length bs div 4"
  by (induction bs rule: np_fromfile_f32.induct) auto

lemma nth_np_fromfile_f32:
  "j < length bs div 4 \<Longrightarrow> np_fromfile_f32 bs ! j = f32_at bs j"
proof (induction bs arbitrary: j rule: np_fromfile_f32.induct)
  case (1 b0 b1 b2 b3 rest)
  show ?case
  proof (cases j)
    case 0
    then show ?thesis by (simp add: f32_at_def)
  next
    case (Suc k)
    with 1 show ?thesis by (simp add: f32_at_def add.commute)
  qed
qed auto

lemma length_rows4: "length (rows4 xs) = length xs div 4"
  by (induction xs rule: rows4.induct) auto

lemma nth_rows4:
  "i < length xs div 4 \<Longrightarrow>
   rows4 xs ! i = [xs ! (4 * i), xs ! (4 * i + 1), xs ! (4 * i + 2), xs ! (4 * i + 3)]"
proof (induction xs arbitrary: i rule: rows4.induct)
  case (1 a b c d rest)
  show ?case
  proof (cases i)
    case 0
    then show ?thesis by simp
  next
    case (Suc k)
    with 1 show ?thesis by (simp add: add.commute)
  qed
qed auto

text \<open>
  Claim C7. A file of exactly \<open>4 * N\<close> single-precision numbers (\<open>16 * N\<close> bytes) is read
  by \<open>read_bin\<close> as exactly \<open>N\<close> points, the \<open>i\<close>-th being the first three numbers of the
  \<open>i\<close>-th group of four, so that the fourth number of each group is dropped. When the number
  of whole numbers in the file is no multiple of 4, \<open>read_bin\<close> fails with the error of
  the reshape and returns no points.
\<close>

theorem read_bin_reshape:
  "(length file = 4 * (4 * N) \<longrightarrow>
      (\<exists>pts. read_bin file = Inr pts \<and> length pts = N \<and>
         (\<forall>i<N. pts ! i =
            [f32_at file (4 * i), f32_at file (4 * i + 1), f32_at file (4 * i + 2)])))
   \<and> ((length file div 4) mod 4 \<noteq> 0 \<longrightarrow> read_bin file = Inl Reshape_error)"
proof (intro conjI impI)
  assume len: "length file = 4 * (4 * N)"
  let ?scan = "np_fromfile_f32 file"
  have ls: "length ?scan = 4 * N"
    using len by (simp add: length_np_fromfile_f32)
  have rb: "read_bin file = Inr (map (take 3) (rows4 ?scan))"
    using ls by (simp add: read_bin_def np_reshape4_def)
  have lr: "length (rows4 ?scan) = N"
    using ls by (simp add: length_rows4)
  have "\<forall>i<N. map (take 3) (rows4 ?scan) ! i =
          [f32_at file (4 * i), f32_at file (4 * i + 1), f32_at file (4 * i + 2)]"
  proof (intro allI impI)
    fix i assume i: "i < N"
    then have "rows4 ?scan ! i =
        [?scan ! (4 * i), ?scan ! (4 * i + 1), ?scan ! (4 * i + 2), ?scan ! (4 * i + 3)]"
      using ls by (simp add: nth_rows4)
    moreover have "?scan ! (4 * i) = f32_at file (4 * i)"
      "?scan ! (4 * i + 1) = f32_at file (4 * i + 1)"
      "?scan ! (4 * i + 2) = f32_at file (4 * i + 2)"
      using i len by (simp_all add: nth_np_fromfile_f32)
    ultimately show "map (take 3) (rows4 ?scan) ! i =
        [f32_at file (4 * i), f32_at file (4 * i + 1), f32_at file (4 * i + 2)]"
      using i lr by simp
  qed
  with rb lr show "\<exists>pts. read_bin file = Inr pts \<and> length pts = N \<and>
      (\<forall>i<N. pts ! i =
         [f32_at file (4 * i), f32_at file (4 * i + 1), f32_at file (4 * i + 2)])"
    by simp
next
  assume "(length file div 4) mod 4 \<noteq> 0"
  then show "read_bin file = Inl Reshape_error"
    by (simp add: read_bin_def np_reshape4_def length_np_fromfile_f32)
qed

theorem read_bin_reshape_witness:
  "length bin_example = 4 * (4 * 1)
   \<and> read_bin bin_example = Inr [[Fin 1, Fin 2, Fin (- 1 / 2)]]
   \<and> (length (take 9 bin_example) div 4) mod 4 \<noteq> 0
   \<and> read_bin (take 9 bin_example) = Inl Reshape_error"
proof -
  have l: "length bin_example = 4 * (4 * 1)"
    by (simp add: bin_example_def)
  have m: "(length (take 9 bin_example) div 4) mod 4 \<noteq> 0"
    by (simp add: bin_example_def)
  have "\<exists>pts. read_bin bin_example = Inr pts \<and> length pts = 1 \<and>
      (\<forall>i<1. pts ! i =
         [f32_at bin_example (4 * i), f32_at bin_example (4 * i + 1),
          f32_at bin_example (4 * i + 2)])"
    using read_bin_reshape [of bin_example 1] l by blast
  then obtain pts where p: "read_bin bin_example = Inr pts" and lp: "length pts = 1"
    and q: "\<forall>i<1. pts ! i =
         [f32_at bin_example (4 * i), f32_at bin_example (4 * i + 1),
          f32_at bin_example (4 * i + 2)]"
    by blast
  have v: "f32_at bin_example (4 * 0) = Fin 1" "f32_at bin_example (4 * 0 + 1) = Fin 2"
    "f32_at bin_example (4 * 0 + 2) = Fin (- 1 / 2)"
    by (simp_all add: f32_at_def bin_example_def float_of_bits_def word_of_bytes_le_def)
  from q have "pts ! 0 = [f32_at bin_example (4 * 0), f32_at bin_example (4 * 0 + 1),
          f32_at bin_example (4 * 0 + 2)]"
    by blast
  with v have "pts ! 0 = [Fin 1, Fin 2, Fin (- 1 / 2)]"
    by (simp only:)
  with lp have "pts = [[Fin 1, Fin 2, Fin (- 1 / 2)]]"
    by (cases pts) auto
  with p have r: "read_bin bin_example = Inr [[Fin 1, Fin 2, Fin (- 1 / 2)]]"
    by simp
  from read_bin_reshape [of "take 9 bin_example"] m
  have "read_bin (take 9 bin_example) = Inl Reshape_error"
    by blast
  with l m r show ?thesis by blast
qed

section \<open>Reading lines\<close>

lemmas py_text_defs =
  lit_def ascii_line_def is_space_def py_strip_def py_split_def startswith_def py_upper_def
  is_digit_def val_digits_def signed_digits_def py_int_def ascii_lower_def float_number_def
  float_exponent_def float_abs_def float_neg_def py_float_def item1_def item_last_def
  int_item1_def item_def float_item_def

lemma utf8_cps_ascii: "list_all (\<lambda>c. c < 128) s \<Longrightarrow> utf8_cps s = Some s"
  by (induction s) auto

lemma unat_byte_of_nat: "c < 256 \<Longrightarrow> unat (of_nat c :: byte) = c"
  by (simp add: unat_of_nat)

lemma map_unat_ascii_bytes: "list_all (\<lambda>c. c < 128) s \<Longrightarrow> map unat (ascii_bytes s) = s"
  by (induction s) (auto simp: ascii_bytes_def unat_byte_of_nat)

lemma utf8_decode_ascii:
  "list_all (\<lambda>c. c < 128) s \<Longrightarrow> utf8_decode (ascii_bytes s) = Some s"
  by (simp add: utf8_decode_def map_unat_ascii_bytes utf8_cps_ascii)

lemma readline_append: "10 \<notin> set l \<Longrightarrow> readline (l @ 10 # rest) = (l @ [10], rest)"
  by (induction l) auto

lemma ascii_bytes_no_newline: "ascii_line l \<Longrightarrow> 10 \<notin> set (ascii_bytes l)"
proof (induction l)
  case Nil
  then show ?case by (simp add: ascii_bytes_def)
next
  case (Cons c l)
  then have c: "c < 128" "c \<noteq> 10" and l: "ascii_line l"
    by (simp_all add: ascii_line_def)
  have "unat (of_nat c :: byte) = c"
    using c by (simp add: unat_byte_of_nat)
  then have "(of_nat c :: byte) \<noteq> 10"
    using c by auto
  with Cons.IH [OF l] show ?case by (simp add: ascii_bytes_def)
qed

lemma ascii_line_all: "ascii_line l \<Longrightarrow> list_all (\<lambda>c. c < 128) (l @ [10])"
  by (induction l) (auto simp: ascii_line_def)

lemma utf8_decode_ascii_line:
  "ascii_line l \<Longrightarrow> utf8_decode (ascii_bytes (l @ [10])) = Some (l @ [10])"
  by (rule utf8_decode_ascii) (rule ascii_line_all)

lemma ascii_bytes_append: "ascii_bytes (a @ b) = ascii_bytes a @ ascii_bytes b"
  by (simp add: ascii_bytes_def)

lemma readline_file_lines:
  "ascii_line l \<Longrightarrow>
   readline (file_lines (l # ls) p) = (ascii_bytes (l @ [10]), file_lines ls p)"
  by (simp add: readline_append ascii_bytes_no_newline ascii_bytes_append)
     (simp add: ascii_bytes_def)

lemma py_strip_snoc_space:
  assumes c: "is_space c"
  shows "py_strip (s @ [c]) = py_strip s"
proof (cases "\<forall>x\<in>set s. is_space x")
  case True
  have a: "dropWhile is_space s = []"
    using True by (induction s) auto
  have b: "dropWhile is_space (s @ [c]) = []"
    using True c by (induction s) auto
  show ?thesis by (simp only: py_strip_def a b)
next
  case False
  then obtain x where "x \<in> set s" "\<not> is_space x"
    by blast
  then have "dropWhile is_space (s @ [c]) = dropWhile is_space s @ [c]"
    by (rule dropWhile_append1)
  then show ?thesis using c by (simp add: py_strip_def)
qed

lemma is_space_newline: "is_space 10"
  by (simp add: is_space_def)

text \<open>One round of each header loop on a file that starts with a line of ASCII text.\<close>

lemma pcd_header_loop_file_lines:
  "ascii_line l \<Longrightarrow>
   pcd_header_loop (file_lines (l # ls) p) info hl =
     (case pcd_header_line (py_strip l) info of
        Inl e \<Rightarrow> Some (Inl e)
      | Inr (stop, info') \<Rightarrow>
          if stop then Some (Inr (info', hl @ [py_strip l]))
          else pcd_header_loop (file_lines ls p) info' (hl @ [py_strip l]))"
  by (subst pcd_header_loop.simps)
     (simp add: readline_file_lines utf8_decode_ascii_line py_strip_snoc_space
        is_space_newline del: file_lines.simps cong: sum.case_cong prod.case_cong if_cong)

lemma ply_header_loop_file_lines:
  "ascii_line l \<Longrightarrow>
   ply_header_loop (file_lines (l # ls) p) hl =
     (if py_strip l = lit ''end_header''
      then Some (Inr (hl @ [py_strip l], file_lines ls p))
      else ply_header_loop (file_lines ls p) (hl @ [py_strip l]))"
  by (subst ply_header_loop.simps)
     (simp add: readline_file_lines utf8_decode_ascii_line py_strip_snoc_space
        is_space_newline del: file_lines.simps cong: sum.case_cong prod.case_cong if_cong)

section \<open>The header loops at the end of the file\<close>

lemma pcd_header_line_empty: "pcd_header_line [] info = Inr (False, info)"
  by (simp add: pcd_header_line_def startswith_def lit_def)

lemma pcd_header_loop_returns_nonempty:
  assumes "pcd_header_loop f info hl = Some y"
  shows "f \<noteq> []"
  apply (rule pcd_header_loop.raw_induct [where P = "\<lambda>f info hl y. f \<noteq> []", OF _ assms])
  subgoal premises prems for loop f info hl y
  proof
    assume "f = []"
    with prems(2) have "loop [] info (hl @ [[]]) = Some y"
      by (simp add: utf8_decode_def py_strip_def pcd_header_line_empty)
    from prems(1) [OF this] show False by simp
  qed
  done

lemma ply_header_loop_returns_nonempty:
  assumes "ply_header_loop f hl = Some y"
  shows "f \<noteq> []"
  apply (rule ply_header_loop.raw_induct [where P = "\<lambda>f hl y. f \<noteq> []", OF _ assms])
  subgoal premises prems for loop f hl y
  proof
    assume "f = []"
    with prems(2) have "loop [] (hl @ [[]]) = Some y"
      by (simp add: utf8_decode_def py_strip_def lit_def)
    from prems(1) [OF this] show False by simp
  qed
  done

lemma pcd_header_loop_eof: "pcd_header_loop [] info hl = None"
  using pcd_header_loop_returns_nonempty by (metis option.exhaust)

lemma ply_header_loop_eof: "ply_header_loop [] hl = None"
  using ply_header_loop_returns_nonempty by (metis option.exhaust)

text \<open>
  Claim C10 says that the header loops of \<open>read_pcd\<close> and \<open>read_ply\<close> end on every
  finite file, also on one without a \<^verbatim>\<open>DATA\<close> or \<^verbatim>\<open>end_header\<close> line. The code has no
  test for the end of the file: there \<^verbatim>\<open>readline\<close> returns the empty bytes for ever, the
  stripped line is empty and no branch leaves the loop. On the empty file, and on a file
  whose only line is \<^verbatim>\<open>VERSION 0.7\<close> or \<^verbatim>\<open>ply\<close>, neither call returns.
\<close>

theorem header_loops_diverge_at_eof:
  "read_pcd [] = None \<and> read_ply [] = None
   \<and> read_pcd (file_lines [lit ''VERSION 0.7''] []) = None
   \<and> read_ply (file_lines [lit ''ply''] []) = None"
proof -
  have a: "pcd_header_loop (file_lines [lit ''VERSION 0.7''] []) empty_info [] = None"
    by (simp add: pcd_header_loop_file_lines pcd_header_line_def py_text_defs
          pcd_header_loop_eof del: file_lines.simps(2))
  have b: "ply_header_loop (file_lines [lit ''ply''] []) [] = None"
    by (simp add: ply_header_loop_file_lines py_text_defs ply_header_loop_eof
          del: file_lines.simps(2))
  show ?thesis
    unfolding read_pcd_def read_ply_def a b pcd_header_loop_eof ply_header_loop_eof
    by simp
qed

section \<open>Truncated binary payloads\<close>

lemma length_ascii_bytes: "length (ascii_bytes l) = length l"
  by (simp add: ascii_bytes_def)

lemma utf8_len_ascii: "ascii_line l \<Longrightarrow> utf8_len l = length l"
  by (induction l) (auto simp: utf8_len_def ascii_line_def)

text \<open>When the header lines are ASCII and carry no space at either end, \<open>header_size\<close>
  is the offset of the payload.\<close>

lemma drop_header_size:
  "list_all ascii_line ls \<Longrightarrow> drop (header_size ls) (file_lines ls p) = p"
proof (induction ls)
  case Nil
  then show ?case by (simp add: header_size_def)
next
  case (Cons l ls)
  then have l: "ascii_line l" and ls: "list_all ascii_line ls"
    by simp_all
  have "header_size (l # ls) = length (ascii_bytes l @ [10]) + header_size ls"
    using l by (simp add: header_size_def utf8_len_ascii length_ascii_bytes)
  then show ?case
    using Cons.IH [OF ls] by (simp add: length_ascii_bytes)
qed

lemma ply_trunc_parse:
  "ply_parse_header
     [lit ''ply'', lit ''format binary_little_endian 1.0'', lit ''element vertex 2'',
      lit ''property float x'', lit ''property float y'', lit ''property float z'',
      lit ''end_header''] (0, lit ''ascii'', [])
   = Inr (2, lit ''binary_little_endian'', [lit ''x'', lit ''y'', lit ''z''])"
  "ply_parse_header
     [lit ''ply'', lit ''format binary_big_endian 1.0'', lit ''element vertex 2'',
      lit ''property float x'', lit ''property float y'', lit ''property float z'',
      lit ''end_header''] (0, lit ''ascii'', [])
   = Inr (2, lit ''binary_big_endian'', [lit ''x'', lit ''y'', lit ''z''])"
  by (simp_all add: py_text_defs)

lemma ply_trunc_le_header:
  "ply_header_loop ply_trunc_le [] =
     Some (Inr ([lit ''ply'', lit ''format binary_little_endian 1.0'', lit ''element vertex 2'',
                 lit ''property float x'', lit ''property float y'', lit ''property float z'',
                 lit ''end_header''],
                [0, 0, 128, 63,  0, 0, 0, 64,  0, 0, 64, 64,  0, 0, 128, 64,  0, 0]))"
  unfolding ply_trunc_le_def
  by (simp add: ply_header_loop_file_lines py_text_defs del: file_lines.simps(2))

lemma ply_trunc_be_header:
  "ply_header_loop ply_trunc_be [] =
     Some (Inr ([lit ''ply'', lit ''format binary_big_endian 1.0'', lit ''element vertex 2'',
                 lit ''property float x'', lit ''property float y'', lit ''property float z'',
                 lit ''end_header''],
                [63, 128, 0, 0,  64, 0, 0, 0,  64, 64, 0, 0,  64, 128, 0, 0,  0, 0]))"
  unfolding ply_trunc_be_def
  by (simp add: ply_header_loop_file_lines py_text_defs del: file_lines.simps(2))

lemma pcd_trunc_index_header:
  "pcd_header_loop pcd_trunc_index empty_info [] =
     Some (Inr (empty_info\<lparr>hi_fields := Some [lit ''intensity'', lit ''x'', lit ''y'', lit ''z''],
                           hi_points := Some 1, hi_data := Some (lit ''binary'')\<rparr>,
                [lit ''FIELDS intensity x y z'', lit ''POINTS 1'', lit ''DATA binary'']))"
  unfolding pcd_trunc_index_def
  by (simp add: pcd_header_loop_file_lines pcd_header_line_def py_text_defs empty_info_def
        del: file_lines.simps(2))

lemma pcd_trunc_index_payload:
  "drop (header_size [lit ''FIELDS intensity x y z'', lit ''POINTS 1'', lit ''DATA binary''])
     pcd_trunc_index = [0, 0, 128, 63,  0, 0, 0, 64,  0, 0, 64, 64,  0]"
  unfolding pcd_trunc_index_def
  by (rule drop_header_size) (simp add: lit_def ascii_line_def)

text \<open>
  Claim C2 says that no payload decoder raises on a truncated payload. The PCD binary
  decoder catches the failed read; the two PLY binary decoders do not, so that a payload
  ending inside a vertex raises \<^verbatim>\<open>struct.error\<close>. The PCD binary decoder raises too,
  \<^verbatim>\<open>IndexError\<close>, when the last record keeps at least three whole fields but not the one
  named \<^verbatim>\<open>z\<close>.
\<close>

theorem truncated_payload_raises:
  "read_ply ply_trunc_le = Some (Inl Struct_error)
   \<and> read_ply ply_trunc_be = Some (Inl Struct_error)
   \<and> read_pcd pcd_trunc_index = Some (Inl IndexError)"
proof -
  have "read_ply ply_trunc_le =
          Some (ply_binary_points unpack_le_f (Suc (Suc 0)) [lit ''x'', lit ''y'', lit ''z'']
                  0 1 2 [0, 0, 128, 63,  0, 0, 0, 64,  0, 0, 64, 64,  0, 0, 128, 64,  0, 0])"
    unfolding read_ply_def ply_trunc_le_header ply_payload_def option.case sum.case prod.case
      ply_trunc_parse
    by (simp add: lit_def numeral_2_eq_2 del: ply_binary_points.simps)
  then have le: "read_ply ply_trunc_le = Some (Inl Struct_error)"
    by simp
  have "read_ply ply_trunc_be =
          Some (ply_binary_points unpack_be_f (Suc (Suc 0)) [lit ''x'', lit ''y'', lit ''z'']
                  0 1 2 [63, 128, 0, 0,  64, 0, 0, 0,  64, 64, 0, 0,  64, 128, 0, 0,  0, 0])"
    unfolding read_ply_def ply_trunc_be_header ply_payload_def option.case sum.case prod.case
      ply_trunc_parse
    by (simp add: lit_def numeral_2_eq_2 del: ply_binary_points.simps)
  then have be: "read_ply ply_trunc_be = Some (Inl Struct_error)"
    by simp
  have "read_pcd pcd_trunc_index =
          Some (pcd_binary_points (Suc 0) [lit ''intensity'', lit ''x'', lit ''y'', lit ''z'']
                  1 2 3 [0, 0, 128, 63,  0, 0, 0, 64,  0, 0, 64, 64,  0])"
    unfolding read_pcd_def pcd_trunc_index_header pcd_payload_def pcd_binary_def Let_def
      option.case sum.case prod.case pcd_trunc_index_payload
    by (simp add: info_data_def info_points_def info_fields_def empty_info_def lit_def
          py_upper_def index_or_def numeral_2_eq_2 numeral_3_eq_3
          del: pcd_binary_points.simps)
  then have "read_pcd pcd_trunc_index = Some (Inl IndexError)"
    by simp
  with le be show ?thesis by simp
qed

section \<open>PLY files without a coordinate\<close>

text \<open>
  Claim C5. Let the header loop of \<open>read_ply\<close> return the header lines of a file and let
  the scan of these lines yield the tracked properties. When \<^verbatim>\<open>x\<close>, \<^verbatim>\<open>y\<close> or \<^verbatim>\<open>z\<close> is
  not among them, \<open>read_ply\<close> raises the error of the missing coordinates and returns no
  points; whatever bytes follow the header, the outcome is the same, so that no vertex is
  read.
\<close>

theorem read_ply_missing_xyz:
  assumes "ply_header_loop file [] = Some (Inr (header_lines, payload))"
    and "ply_parse_header header_lines (0, lit ''ascii'', [])
         = Inr (vertex_count, format_type, properties)"
    and "lit ''x'' \<notin> set properties \<or> lit ''y'' \<notin> set properties
         \<or> lit ''z'' \<notin> set properties"
  shows "read_ply file = Some (Inl ValueError_ply_xyz)
         \<and> (\<forall>payload'. ply_payload header_lines payload' = Inl ValueError_ply_xyz)"
proof -
  have "ply_payload header_lines p = Inl ValueError_ply_xyz" for p
    using assms(2,3) by (auto simp: ply_payload_def)
  then show ?thesis
    using assms(1) by (simp add: read_ply_def)
qed

lemma ply_no_z_header:
  "ply_header_loop ply_no_z [] =
     Some (Inr ([lit ''ply'', lit ''format ascii 1.0'', lit ''element vertex 1'',
                 lit ''property float x'', lit ''property float y'', lit ''end_header''],
                file_lines [lit ''1.0 2.0''] []))"
  unfolding ply_no_z_def
  by (simp add: ply_header_loop_file_lines py_text_defs del: file_lines.simps)

lemma ply_no_z_parse:
  "ply_parse_header
     [lit ''ply'', lit ''format ascii 1.0'', lit ''element vertex 1'',
      lit ''property float x'', lit ''property float y'', lit ''end_header'']
     (0, lit ''ascii'', [])
   = Inr (1, lit ''ascii'', [lit ''x'', lit ''y''])"
  by (simp add: py_text_defs)

theorem read_ply_missing_xyz_witness:
  "ply_header_loop ply_no_z [] =
     Some (Inr ([lit ''ply'', lit ''format ascii 1.0'', lit ''element vertex 1'',
                 lit ''property float x'', lit ''property float y'', lit ''end_header''],
                file_lines [lit ''1.0 2.0''] []))
   \<and> ply_parse_header
       [lit ''ply'', lit ''format ascii 1.0'', lit ''element vertex 1'',
        lit ''property float x'', lit ''property float y'', lit ''end_header'']
       (0, lit ''ascii'', [])
     = Inr (1, lit ''ascii'', [lit ''x'', lit ''y''])
   \<and> lit ''z'' \<notin> set [lit ''x'', lit ''y'']
   \<and> read_ply ply_no_z = Some (Inl ValueError_ply_xyz)"
proof -
  have z: "lit ''z'' \<notin> set [lit ''x'', lit ''y'']"
    by (simp add: lit_def)
  then have "lit ''x'' \<notin> set [lit ''x'', lit ''y''] \<or> lit ''y'' \<notin> set [lit ''x'', lit ''y'']
      \<or> lit ''z'' \<notin> set [lit ''x'', lit ''y'']"
    by blast
  from read_ply_missing_xyz [OF ply_no_z_header ply_no_z_parse this]
  have "read_ply ply_no_z = Some (Inl ValueError_ply_xyz)"
    by blast
  with ply_no_z_header ply_no_z_parse z show ?thesis
    by blast
qed

section \<open>The binary PCD decoder\<close>

lemma unpack_le_f_short: "length f < 4 \<Longrightarrow> unpack_le_f (take 4 f) = None"
  by (cases f rule: unpack_le_f.cases) auto

lemma unpack_le_f_whole: "4 \<le> length f \<Longrightarrow> \<exists>v. unpack_le_f (take 4 f) = Some v"
proof -
  assume "4 \<le> length f"
  then obtain b0 b1 b2 b3 rest where "f = b0 # b1 # b2 # b3 # rest"
    by (cases f rule: np_fromfile_f32.cases) auto
  then show ?thesis by simp
qed

lemma pcd_read_fields_whole:
  "4 * length flds \<le> length f \<Longrightarrow>
   \<exists>vs. pcd_read_fields flds f = (vs, drop (4 * length flds) f) \<and> length vs = length flds"
proof (induction flds arbitrary: f)
  case Nil
  then show ?case by simp
next
  case (Cons a flds)
  then have "4 \<le> length f" by simp
  then obtain v where v: "unpack_le_f (take 4 f) = Some v"
    using unpack_le_f_whole by blast
  from Cons.prems have "4 * length flds \<le> length (drop 4 f)" by simp
  from Cons.IH [OF this] obtain vs where
    "pcd_read_fields flds (drop 4 f) = (vs, drop (4 * length flds) (drop 4 f))"
    "length vs = length flds"
    by blast
  with v show ?case by (simp add: add.commute)
qed

lemma pcd_read_fields_short:
  "length f < 4 * length flds \<Longrightarrow>
   \<exists>vs. pcd_read_fields flds f = (vs, []) \<and> length vs = length f div 4"
proof (induction flds arbitrary: f)
  case Nil
  then show ?case by simp
next
  case (Cons a flds)
  show ?case
  proof (cases "length f < 4")
    case True
    then show ?thesis using unpack_le_f_short [of f] by simp
  next
    case False
    then obtain v where v: "unpack_le_f (take 4 f) = Some v"
      using unpack_le_f_whole [of f] by auto
    from Cons.prems False have "length (drop 4 f) < 4 * length flds" by simp
    from Cons.IH [OF this] obtain vs where
      "pcd_read_fields flds (drop 4 f) = (vs, [])" "length vs = length (drop 4 f) div 4"
      by blast
    moreover have "Suc ((length f - 4) div 4) = length f div 4"
      using False by arith
    ultimately show ?thesis
      using v by simp
  qed
qed

lemma pcd_read_fields_length:
  "pcd_read_fields flds f = (vs, f') \<Longrightarrow> length vs \<le> length flds"
  by (induction flds arbitrary: f vs f') (auto split: option.splits prod.splits)

lemma pcd_binary_points_eof: "pcd_binary_points n flds x y z [] = Inr []"
proof (induction n)
  case 0
  then show ?case by simp
next
  case (Suc n)
  have "pcd_read_fields flds [] = ([], [])"
    by (cases flds) simp_all
  with Suc show ?case by simp
qed

text \<open>After \<open>m\<close> whole records and \<open>r\<close> further bytes that hold fewer than three whole
  numbers, \<open>m\<close> points are returned.\<close>

lemma pcd_binary_points_cut:
  assumes "x < length flds" "y < length flds" "z < length flds" "3 \<le> length flds"
  shows "length f = 4 * length flds * m + r \<Longrightarrow> r < 4 * length flds \<Longrightarrow> r div 4 < 3
         \<Longrightarrow> m < n
         \<Longrightarrow> \<exists>pts. pcd_binary_points n flds x y z f = Inr pts \<and> length pts = m"
proof (induction m arbitrary: f n)
  case 0
  then obtain n' where n: "n = Suc n'" by (cases n) auto
  from 0 have "length f < 4 * length flds" by simp
  from pcd_read_fields_short [OF this] obtain vs where
    vs: "pcd_read_fields flds f = (vs, [])" "length vs = length f div 4"
    by blast
  with 0 have "\<not> 3 \<le> length vs" by simp
  with vs n show ?case by (simp add: pcd_binary_points_eof)
next
  case (Suc m)
  then obtain n' where n: "n = Suc n'" and mn: "m < n'" by (cases n) auto
  from Suc.prems have "4 * length flds \<le> length f" by simp
  from pcd_read_fields_whole [OF this] obtain vs where
    vs: "pcd_read_fields flds f = (vs, drop (4 * length flds) f)" "length vs = length flds"
    by blast
  from Suc.prems have "length (drop (4 * length flds) f) = 4 * length flds * m + r"
    by simp
  from Suc.IH [OF this Suc.prems(2,3) mn] obtain pts where
    "pcd_binary_points n' flds x y z (drop (4 * length flds) f) = Inr pts" "length pts = m"
    by blast
  with vs n assms show ?case by simp
qed

text \<open>After \<open>m\<close> whole records and \<open>r\<close> further bytes that hold at least three whole
  numbers, among them those at the three indices, \<open>m + 1\<close> points are returned.\<close>

lemma pcd_binary_points_cut_late:
  assumes "x < r div 4" "y < r div 4" "z < r div 4" "3 \<le> r div 4" "r < 4 * length flds"
  shows "length f = 4 * length flds * m + r \<Longrightarrow> m < n
         \<Longrightarrow> \<exists>pts. pcd_binary_points n flds x y z f = Inr pts \<and> length pts = m + 1"
proof (induction m arbitrary: f n)
  case 0
  then obtain n' where n: "n = Suc n'" by (cases n) auto
  from 0 assms have "length f < 4 * length flds" by simp
  from pcd_read_fields_short [OF this] obtain vs where
    vs: "pcd_read_fields flds f = (vs, [])" "length vs = length f div 4"
    by blast
  with 0 assms have "3 \<le> length vs" "x < length vs" "y < length vs" "z < length vs"
    by simp_all
  with vs n show ?case by (simp add: pcd_binary_points_eof)
next
  case (Suc m)
  then obtain n' where n: "n = Suc n'" and mn: "m < n'" by (cases n) auto
  from Suc.prems have "4 * length flds \<le> length f" by simp
  from pcd_read_fields_whole [OF this] obtain vs where
    vs: "pcd_read_fields flds f = (vs, drop (4 * length flds) f)" "length vs = length flds"
    by blast
  from Suc.prems have "length (drop (4 * length flds) f) = 4 * length flds * m + r"
    by simp
  from Suc.IH [OF this mn] obtain pts where
    "pcd_binary_points n' flds x y z (drop (4 * length flds) f) = Inr pts"
    "length pts = m + 1"
    by blast
  moreover from assms have "r div 4 \<le> length flds" by simp
  ultimately show ?case using vs n assms by simp
qed

lemma pcd_binary_points_length:
  "pcd_binary_points n flds x y z f = Inr pts \<Longrightarrow> length pts \<le> n"
proof (induction n arbitrary: f pts)
  case 0
  then show ?case by simp
next
  case (Suc n)
  obtain vs f' where vs: "pcd_read_fields flds f = (vs, f')"
    by (cases "pcd_read_fields flds f")
  show ?case
  proof (cases "3 \<le> length vs")
    case True
    with Suc.prems vs obtain ps where
      "pcd_binary_points n flds x y z f' = Inr ps" "length pts = Suc (length ps)"
      by (auto split: if_splits sum.splits)
    with Suc.IH show ?thesis by fastforce
  next
    case False
    with Suc.prems vs have "pcd_binary_points n flds x y z f' = Inr pts"
      by simp
    with Suc.IH show ?thesis by fastforce
  qed
qed

lemma index_of_less: "v \<in> set xs \<Longrightarrow> index_of xs v < length xs"
  by (induction xs) auto

lemma index_or_less: "d < length xs \<Longrightarrow> index_or xs v d < length xs"
  by (simp add: index_or_def index_of_less)

lemma lit_binary_not_ascii: "lit ''BINARY'' \<noteq> lit ''ASCII''"
  by (simp add: lit_def)

lemma read_pcd_binary:
  assumes "pcd_header_loop file empty_info [] = Some (Inr (info, header_lines))"
    and "py_upper (info_data info) = lit ''BINARY''"
  shows "read_pcd file =
           Some (pcd_binary_points (nat (info_points info)) (info_fields info)
                   (index_or (info_fields info) (lit ''x'') 0)
                   (index_or (info_fields info) (lit ''y'') 1)
                   (index_or (info_fields info) (lit ''z'') 2)
                   (drop (header_size header_lines) file))"
  using assms
  by (simp add: read_pcd_def pcd_payload_def pcd_binary_def lit_binary_not_ascii Let_def)

text \<open>
  Claim C1, as amended. Take a binary PCD file with at least three declared fields, \<open>F\<close>
  in number, and \<open>n > 0\<close> declared points, whose payload lacks its last \<open>k\<close> bytes,
  \<open>0 < k < 4 * F\<close>. When fewer than three whole numbers of the last record are left,
  \<open>read_pcd\<close> returns exactly \<open>n - 1\<close> points and does not raise. When at least three
  whole numbers are left, among them those at the indices of \<^verbatim>\<open>x\<close>, \<^verbatim>\<open>y\<close> and \<^verbatim>\<open>z\<close>, it
  returns \<open>n\<close> points.
\<close>

theorem pcd_binary_truncated:
  assumes hdr: "pcd_header_loop file empty_info [] = Some (Inr (info, header_lines))"
    and mode: "py_upper (info_data info) = lit ''BINARY''"
    and n: "info_points info = int n" "0 < n"
    and F: "length (info_fields info) = F" "3 \<le> F"
    and k: "0 < k" "k < 4 * F"
    and len: "length file = header_size header_lines + (4 * F * n - k)"
  shows "((4 * F - k) div 4 < 3 \<longrightarrow>
            (\<exists>pts. read_pcd file = Some (Inr pts) \<and> length pts = n - 1))
         \<and> (3 \<le> (4 * F - k) div 4
              \<and> index_or (info_fields info) (lit ''x'') 0 < (4 * F - k) div 4
              \<and> index_or (info_fields info) (lit ''y'') 1 < (4 * F - k) div 4
              \<and> index_or (info_fields info) (lit ''z'') 2 < (4 * F - k) div 4 \<longrightarrow>
            (\<exists>pts. read_pcd file = Some (Inr pts) \<and> length pts = n))"
proof -
  let ?flds = "info_fields info"
  let ?x = "index_or ?flds (lit ''x'') 0"
  let ?y = "index_or ?flds (lit ''y'') 1"
  let ?z = "index_or ?flds (lit ''z'') 2"
  let ?f = "drop (header_size header_lines) file"
  let ?r = "4 * F - k"
  obtain m where m: "n = Suc m"
    using n(2) by (cases n) auto
  have "nat (info_points info) = Suc m"
    using n(1) m by simp
  then have rd: "read_pcd file = Some (pcd_binary_points (Suc m) ?flds ?x ?y ?z ?f)"
    using read_pcd_binary [OF hdr mode] by (simp del: pcd_binary_points.simps)
  have "4 * F * n - k = 4 * F * m + ?r"
    using k m by simp
  then have lf: "length ?f = 4 * length ?flds * m + ?r"
    using len F by simp
  have r: "?r < 4 * length ?flds"
    using k F by simp
  have idx: "?x < length ?flds" "?y < length ?flds" "?z < length ?flds"
    using F by (auto intro!: index_or_less)
  have "\<exists>pts. read_pcd file = Some (Inr pts) \<and> length pts = n - 1" if "?r div 4 < 3"
  proof -
    from pcd_binary_points_cut [OF idx _ lf r that, of "Suc m"] F
    obtain pts where "pcd_binary_points (Suc m) ?flds ?x ?y ?z ?f = Inr pts" "length pts = m"
      by auto
    with rd m show ?thesis by simp
  qed
  moreover have "\<exists>pts. read_pcd file = Some (Inr pts) \<and> length pts = n"
    if "3 \<le> ?r div 4" "?x < ?r div 4" "?y < ?r div 4" "?z < ?r div 4"
  proof -
    from pcd_binary_points_cut_late [OF that(2,3,4,1) r lf, of "Suc m"]
    obtain pts where "pcd_binary_points (Suc m) ?flds ?x ?y ?z ?f = Inr pts"
      "length pts = m + 1"
      by auto
    with rd m show ?thesis by simp
  qed
  ultimately show ?thesis by blast
qed

lemma pcd_trunc_three_header:
  "pcd_header_loop pcd_trunc_three empty_info [] =
     Some (Inr (info_three, [lit ''FIELDS x y z'', lit ''POINTS 2'', lit ''DATA binary'']))"
  unfolding pcd_trunc_three_def info_three_def
  by (simp add: pcd_header_loop_file_lines pcd_header_line_def py_text_defs empty_info_def
        del: file_lines.simps(2))

lemma pcd_trunc_four_header:
  "pcd_header_loop pcd_trunc_four empty_info [] =
     Some (Inr (info_four,
                [lit ''FIELDS x y z intensity'', lit ''POINTS 2'', lit ''DATA binary'']))"
  unfolding pcd_trunc_four_def info_four_def
  by (simp add: pcd_header_loop_file_lines pcd_header_line_def py_text_defs empty_info_def
        del: file_lines.simps(2))

lemma pcd_trunc_three_length:
  "length pcd_trunc_three =
     header_size [lit ''FIELDS x y z'', lit ''POINTS 2'', lit ''DATA binary'']
     + (4 * 3 * 2 - 5)"
  by (simp add: pcd_trunc_three_def header_size_def utf8_len_def lit_def ascii_bytes_def)

lemma pcd_trunc_four_length:
  "length pcd_trunc_four =
     header_size [lit ''FIELDS x y z intensity'', lit ''POINTS 2'', lit ''DATA binary'']
     + (4 * 4 * 2 - 4)"
  by (simp add: pcd_trunc_four_def header_size_def utf8_len_def lit_def ascii_bytes_def)

lemma info_three_facts:
  "py_upper (info_data info_three) = lit ''BINARY''" "info_points info_three = int 2"
  "length (info_fields info_three) = 3"
  by (simp_all add: info_three_def empty_info_def info_data_def info_points_def
        info_fields_def py_upper_def lit_def)

lemma info_four_facts:
  "py_upper (info_data info_four) = lit ''BINARY''" "info_points info_four = int 2"
  "length (info_fields info_four) = 4"
  "index_or (info_fields info_four) (lit ''x'') 0 = 0"
  "index_or (info_fields info_four) (lit ''y'') 1 = 1"
  "index_or (info_fields info_four) (lit ''z'') 2 = 2"
  by (simp_all add: info_four_def empty_info_def info_data_def info_points_def
        info_fields_def py_upper_def lit_def index_or_def)

theorem pcd_binary_truncated_witness:
  "pcd_header_loop pcd_trunc_three empty_info [] =
     Some (Inr (info_three, [lit ''FIELDS x y z'', lit ''POINTS 2'', lit ''DATA binary'']))
   \<and> py_upper (info_data info_three) = lit ''BINARY''
   \<and> info_points info_three = int 2 \<and> length (info_fields info_three) = 3
   \<and> length pcd_trunc_three =
       header_size [lit ''FIELDS x y z'', lit ''POINTS 2'', lit ''DATA binary'']
       + (4 * 3 * 2 - 5)
   \<and> (4 * 3 - 5) div 4 < (3::nat)
   \<and> (\<exists>pts. read_pcd pcd_trunc_three = Some (Inr pts) \<and> length pts = 2 - 1)
   \<and> pcd_header_loop pcd_trunc_four empty_info [] =
       Some (Inr (info_four,
                  [lit ''FIELDS x y z intensity'', lit ''POINTS 2'', lit ''DATA binary'']))
   \<and> py_upper (info_data info_four) = lit ''BINARY''
   \<and> info_points info_four = int 2 \<and> length (info_fields info_four) = 4
   \<and> length pcd_trunc_four =
       header_size [lit ''FIELDS x y z intensity'', lit ''POINTS 2'', lit ''DATA binary'']
       + (4 * 4 * 2 - 4)
   \<and> (3::nat) \<le> (4 * 4 - 4) div 4
   \<and> index_or (info_fields info_four) (lit ''z'') 2 < (4 * 4 - 4) div 4
   \<and> (\<exists>pts. read_pcd pcd_trunc_four = Some (Inr pts) \<and> length pts = 2)"
proof -
  have a: "(4 * 3 - 5) div 4 < (3::nat)" and b: "(3::nat) \<le> (4 * 4 - 4) div 4"
    by simp_all
  have three: "\<exists>pts. read_pcd pcd_trunc_three = Some (Inr pts) \<and> length pts = 2 - 1"
    using pcd_binary_truncated [OF pcd_trunc_three_header info_three_facts(1,2) _
        info_three_facts(3) _ _ _ pcd_trunc_three_length] a
    by simp
  have c: "index_or (info_fields info_four) (lit ''x'') 0 < (4 * 4 - 4) div 4"
    "index_or (info_fields info_four) (lit ''y'') 1 < (4 * 4 - 4) div 4"
    "index_or (info_fields info_four) (lit ''z'') 2 < (4 * 4 - 4) div 4"
    unfolding info_four_facts by simp_all
  have four: "\<exists>pts. read_pcd pcd_trunc_four = Some (Inr pts) \<and> length pts = 2"
    using pcd_binary_truncated [OF pcd_trunc_four_header info_four_facts(1,2) _
        info_four_facts(3) _ _ _ pcd_trunc_four_length] b c
    by simp
  show ?thesis
    using pcd_trunc_three_header info_three_facts pcd_trunc_three_length a three
      pcd_trunc_four_header info_four_facts(1,2,3) pcd_trunc_four_length b c(3) four
    by blast
qed

lemma pcd_trunc_four_payload:
  "drop (header_size [lit ''FIELDS x y z intensity'', lit ''POINTS 2'', lit ''DATA binary''])
     pcd_trunc_four
   = [0, 0, 128, 63,  0, 0, 0, 64,  0, 0, 64, 64,  0, 0, 0, 63,
      0, 0, 128, 64,  0, 0, 160, 64,  0, 0, 192, 64]"
  unfolding pcd_trunc_four_def
  by (rule drop_header_size) (simp add: lit_def ascii_line_def)

lemma float_of_bits_examples:
  "float_of_bits (word_of_bytes_le 0 0 128 63) = Fin 1"
  "float_of_bits (word_of_bytes_le 0 0 0 64) = Fin 2"
  "float_of_bits (word_of_bytes_le 0 0 64 64) = Fin 3"
  "float_of_bits (word_of_bytes_le 0 0 128 64) = Fin 4"
  "float_of_bits (word_of_bytes_le 0 0 160 64) = Fin 5"
  "float_of_bits (word_of_bytes_le 0 0 192 64) = Fin 6"
  "float_of_bits (word_of_bytes_le 0 0 0 63) = Fin (1 / 2)"
  by (simp_all add: float_of_bits_def word_of_bytes_le_def)

text \<open>
  Claim C1 as it stands fails on the second file: two points are declared, the payload is
  four bytes short of two records of sixteen bytes, and two points are returned, not one.
\<close>

theorem pcd_binary_truncated_counterexample:
  "pcd_header_loop pcd_trunc_four empty_info [] =
     Some (Inr (info_four,
                [lit ''FIELDS x y z intensity'', lit ''POINTS 2'', lit ''DATA binary'']))
   \<and> info_points info_four = 2 \<and> length (info_fields info_four) = 4
   \<and> length pcd_trunc_four =
       header_size [lit ''FIELDS x y z intensity'', lit ''POINTS 2'', lit ''DATA binary'']
       + (4 * 4 * 2 - 4)
   \<and> read_pcd pcd_trunc_four = Some (Inr [[Fin 1, Fin 2, Fin 3], [Fin 4, Fin 5, Fin 6]])
   \<and> length [[Fin 1, Fin 2, Fin 3], [Fin 4, Fin 5, Fin 6]] \<noteq> 2 - 1"
proof -
  have "read_pcd pcd_trunc_four =
          Some (pcd_binary_points (Suc (Suc 0)) (info_fields info_four) 0 1 2
                  [0, 0, 128, 63,  0, 0, 0, 64,  0, 0, 64, 64,  0, 0, 0, 63,
                   0, 0, 128, 64,  0, 0, 160, 64,  0, 0, 192, 64])"
    unfolding read_pcd_binary [OF pcd_trunc_four_header info_four_facts(1)]
      pcd_trunc_four_payload info_four_facts
    by (simp add: numeral_2_eq_2)
  also have "info_fields info_four = [lit ''x'', lit ''y'', lit ''z'', lit ''intensity'']"
    by (simp add: info_four_def info_fields_def empty_info_def)
  finally have "read_pcd pcd_trunc_four
      = Some (Inr [[Fin 1, Fin 2, Fin 3], [Fin 4, Fin 5, Fin 6]])"
    by (simp add: float_of_bits_examples)
  with pcd_trunc_four_header info_four_facts(2,3) pcd_trunc_four_length show ?thesis
    by simp
qed

section \<open>Text files\<close>

lemma text_line_ascii_line: "text_line l \<Longrightarrow> ascii_line l"
  by (induction l) (auto simp: text_line_def ascii_line_def)

lemma lines_from_line:
  "10 \<notin> set l \<Longrightarrow> 13 \<notin> set l \<Longrightarrow>
   lines_from cur (l @ 10 # rest) = (rev cur @ l @ [10]) # lines_from [] rest"
  by (induction l arbitrary: cur) auto

lemma lines_from_concat:
  "list_all text_line ls \<Longrightarrow>
   lines_from [] (concat (map (\<lambda>l. l @ [10]) ls)) = map (\<lambda>l. l @ [10]) ls"
proof (induction ls)
  case Nil
  then show ?case by simp
next
  case (Cons l ls)
  then have "10 \<notin> set l" "13 \<notin> set l"
    by (auto simp: text_line_def list_all_iff)
  from lines_from_line [OF this, of "[]"] Cons show ?case by simp
qed

lemma file_lines_concat:
  "file_lines ls [] = ascii_bytes (concat (map (\<lambda>l. l @ [10]) ls))"
  by (induction ls) (simp_all add: ascii_bytes_def)

lemma text_readlines_file_lines:
  assumes "list_all text_line ls"
  shows "text_readlines (file_lines ls []) = Inr (map (\<lambda>l. l @ [10]) ls)"
proof -
  have "list_all (\<lambda>c. c < 128) (concat (map (\<lambda>l. l @ [10]) ls))"
    using assms by (induction ls) (auto simp: text_line_def list_all_iff)
  then have "utf8_decode (file_lines ls []) = Some (concat (map (\<lambda>l. l @ [10]) ls))"
    by (simp add: file_lines_concat utf8_decode_ascii)
  then show ?thesis
    using assms by (simp add: text_readlines_def lines_from_concat)
qed

section \<open>The returned count and the declared count\<close>

lemma ply_ascii_points_length:
  "ply_ascii_points n nprops x y z f = Inr pts \<Longrightarrow> length pts \<le> n"
proof (induction n arbitrary: f pts)
  case 0
  then show ?case by simp
next
  case (Suc n)
  obtain line rest where lr: "readline f = (line, rest)"
    by (cases "readline f")
  with Suc.prems obtain s where s: "utf8_decode line = Some s"
    by (cases "utf8_decode line") auto
  show ?case
  proof (cases "nprops \<le> length (py_split (py_strip s))")
    case True
    with Suc.prems lr s obtain ps where
      "ply_ascii_points n nprops x y z rest = Inr ps" "length pts = Suc (length ps)"
      by (auto simp: Let_def split: sum.splits)
    with Suc.IH show ?thesis by fastforce
  next
    case False
    with Suc.prems lr s have "ply_ascii_points n nprops x y z rest = Inr pts"
      by (simp add: Let_def)
    with Suc.IH show ?thesis by fastforce
  qed
qed

lemma ply_binary_points_length:
  "ply_binary_points unpack n props x y z f = Inr pts \<Longrightarrow> length pts \<le> n"
proof (induction n arbitrary: f pts)
  case 0
  then show ?case by simp
next
  case (Suc n)
  from Suc.prems obtain vs f' ps where
    "ply_binary_points unpack n props x y z f' = Inr ps" "length pts = Suc (length ps)"
    by (auto split: sum.splits prod.splits if_splits)
  with Suc.IH show ?case by fastforce
qed

lemma ply_payload_length:
  assumes "ply_parse_header header_lines (0, lit ''ascii'', [])
           = Inr (vertex_count, format_type, properties)"
    and "ply_payload header_lines f = Inr pts"
  shows "int (length pts) \<le> max 0 vertex_count"
proof -
  from assms have
    "(\<exists>np x y z. ply_ascii_points (nat vertex_count) np x y z f = Inr pts)
     \<or> (\<exists>unpack x y z. ply_binary_points unpack (nat vertex_count) properties x y z f
                          = Inr pts)"
    by (auto simp: ply_payload_def Let_def split: if_splits)
  then have "length pts \<le> nat vertex_count"
    using ply_ascii_points_length ply_binary_points_length by blast
  then show ?thesis by simp
qed

text \<open>
  Claim C6, as amended. Whenever \<open>read_pcd\<close> returns points from a file whose data mode
  is not ASCII, and whenever \<open>read_ply\<close> returns points, their number does not exceed the
  declared count, a negative or absent count standing for 0. (In ASCII mode \<open>read_pcd\<close>
  does not look at the declared count.)
\<close>

theorem count_within_declared:
  "(pcd_header_loop file empty_info [] = Some (Inr (info, header_lines))
    \<and> py_upper (info_data info) \<noteq> lit ''ASCII''
    \<and> read_pcd file = Some (Inr pts)
    \<longrightarrow> int (length pts) \<le> max 0 (info_points info))
   \<and> (ply_header_loop file [] = Some (Inr (ply_lines, f))
      \<and> ply_parse_header ply_lines (0, lit ''ascii'', [])
          = Inr (vertex_count, format_type, properties)
      \<and> read_ply file = Some (Inr pts')
      \<longrightarrow> int (length pts') \<le> max 0 vertex_count)"
proof (intro conjI impI)
  assume a: "pcd_header_loop file empty_info [] = Some (Inr (info, header_lines))
    \<and> py_upper (info_data info) \<noteq> lit ''ASCII'' \<and> read_pcd file = Some (Inr pts)"
  then have "pcd_payload file info header_lines = Inr pts"
    by (auto simp: read_pcd_def)
  with a have "pcd_binary file (header_size header_lines) info = Inr pts"
    by (auto simp: pcd_payload_def split: if_splits)
  then have "length pts \<le> nat (info_points info)"
    by (simp add: pcd_binary_def Let_def pcd_binary_points_length)
  then show "int (length pts) \<le> max 0 (info_points info)"
    by simp
next
  assume a: "ply_header_loop file [] = Some (Inr (ply_lines, f))
      \<and> ply_parse_header ply_lines (0, lit ''ascii'', [])
          = Inr (vertex_count, format_type, properties)
      \<and> read_ply file = Some (Inr pts')"
  then have "ply_payload ply_lines f = Inr pts'"
    by (auto simp: read_ply_def)
  with a show "int (length pts') \<le> max 0 vertex_count"
    using ply_payload_length by blast
qed

lemma read_pcd_ascii:
  assumes "pcd_header_loop file empty_info [] = Some (Inr (info, header_lines))"
    and "py_upper (info_data info) = lit ''ASCII''"
  shows "read_pcd file = Some (pcd_ascii file)"
  using assms by (simp add: read_pcd_def pcd_payload_def)

lemma pcd_trunc_three_payload:
  "drop (header_size [lit ''FIELDS x y z'', lit ''POINTS 2'', lit ''DATA binary''])
     pcd_trunc_three
   = [0, 0, 128, 63,  0, 0, 0, 64,  0, 0, 64, 64,  0, 0, 128, 64,  0, 0, 160]"
  unfolding pcd_trunc_three_def
  by (rule drop_header_size) (simp add: lit_def ascii_line_def)

lemma read_pcd_trunc_three: "read_pcd pcd_trunc_three = Some (Inr [[Fin 1, Fin 2, Fin 3]])"
proof -
  have "read_pcd pcd_trunc_three =
          Some (pcd_binary_points (Suc (Suc 0)) [lit ''x'', lit ''y'', lit ''z''] 0 1 2
                  [0, 0, 128, 63,  0, 0, 0, 64,  0, 0, 64, 64,  0, 0, 128, 64,  0, 0, 160])"
    unfolding read_pcd_binary [OF pcd_trunc_three_header info_three_facts(1)]
      pcd_trunc_three_payload
    by (simp add: info_three_def info_fields_def info_points_def empty_info_def index_or_def
          lit_def numeral_2_eq_2 del: pcd_binary_points.simps)
  then show ?thesis
    by (simp add: float_of_bits_examples)
qed

lemma ply_ascii_short_header:
  "ply_header_loop ply_ascii_short [] =
     Some (Inr ([lit ''ply'', lit ''format ascii 1.0'', lit ''element vertex 2'',
                 lit ''property float x'', lit ''property float y'', lit ''property float z'',
                 lit ''end_header''],
                file_lines [lit ''1.0 2.0 3.0''] []))"
  unfolding ply_ascii_short_def
  by (simp add: ply_header_loop_file_lines py_text_defs del: file_lines.simps)

lemma ply_ascii_short_parse:
  "ply_parse_header
     [lit ''ply'', lit ''format ascii 1.0'', lit ''element vertex 2'',
      lit ''property float x'', lit ''property float y'', lit ''property float z'',
      lit ''end_header'']
     (0, lit ''ascii'', [])
   = Inr (2, lit ''ascii'', [lit ''x'', lit ''y'', lit ''z''])"
  by (simp add: py_text_defs)

lemma ply_ascii_points_short:
  "ply_ascii_points (Suc (Suc 0)) 3 0 1 2 (file_lines [lit ''1.0 2.0 3.0''] [])
   = Inr [[Fin 1, Fin 2, Fin 3]]"
proof -
  have l: "ascii_line (lit ''1.0 2.0 3.0'')"
    by (simp add: ascii_line_def lit_def)
  have s: "py_split (py_strip (lit ''1.0 2.0 3.0'')) = [lit ''1.0'', lit ''2.0'', lit ''3.0'']"
    by (simp add: py_text_defs)
  have v: "py_float (lit ''1.0'') = Some (Fin 1)" "py_float (lit ''2.0'') = Some (Fin 2)"
    "py_float (lit ''3.0'') = Some (Fin 3)"
    by (simp_all add: py_text_defs)
  have e: "ply_ascii_points (Suc 0) 3 0 (Suc 0) 2 [] = Inr []"
    by (simp add: utf8_decode_def py_strip_def py_split_def)
  show ?thesis
    by (subst ply_ascii_points.simps(2))
       (simp add: readline_file_lines [OF l] utf8_decode_ascii_line [OF l]
          py_strip_snoc_space is_space_newline s float_item_def item_def v e
          del: file_lines.simps(2) ply_ascii_points.simps(2))
qed

lemma read_ply_ascii_short: "read_ply ply_ascii_short = Some (Inr [[Fin 1, Fin 2, Fin 3]])"
proof -
  have "read_ply ply_ascii_short =
          Some (ply_ascii_points (Suc (Suc 0)) 3 0 1 2 (file_lines [lit ''1.0 2.0 3.0''] []))"
    unfolding read_ply_def ply_ascii_short_header ply_payload_def option.case sum.case
      prod.case ply_ascii_short_parse
    by (simp add: lit_def numeral_2_eq_2 numeral_3_eq_3
          del: ply_ascii_points.simps file_lines.simps)
  then show ?thesis
    by (simp only: ply_ascii_points_short)
qed

theorem count_within_declared_witness:
  "pcd_header_loop pcd_trunc_three empty_info [] =
     Some (Inr (info_three, [lit ''FIELDS x y z'', lit ''POINTS 2'', lit ''DATA binary'']))
   \<and> py_upper (info_data info_three) \<noteq> lit ''ASCII''
   \<and> read_pcd pcd_trunc_three = Some (Inr [[Fin 1, Fin 2, Fin 3]])
   \<and> int (length [[Fin 1, Fin 2, Fin 3]]) \<le> max 0 (info_points info_three)
   \<and> ply_header_loop ply_ascii_short [] =
       Some (Inr ([lit ''ply'', lit ''format ascii 1.0'', lit ''element vertex 2'',
                   lit ''property float x'', lit ''property float y'',
                   lit ''property float z'', lit ''end_header''],
                  file_lines [lit ''1.0 2.0 3.0''] []))
   \<and> ply_parse_header
         [lit ''ply'', lit ''format ascii 1.0'', lit ''element vertex 2'',
          lit ''property float x'', lit ''property float y'', lit ''property float z'',
          lit ''end_header'']
         (0, lit ''ascii'', [])
       = Inr (2, lit ''ascii'', [lit ''x'', lit ''y'', lit ''z''])
   \<and> read_ply ply_ascii_short = Some (Inr [[Fin 1, Fin 2, Fin 3]])
   \<and> int (length [[Fin 1, Fin 2, Fin 3]]) \<le> max 0 2"
proof -
  have m: "py_upper (info_data info_three) \<noteq> lit ''ASCII''"
    by (simp add: info_three_facts(1) lit_binary_not_ascii)
  note c = count_within_declared [of pcd_trunc_three info_three
      "[lit ''FIELDS x y z'', lit ''POINTS 2'', lit ''DATA binary'']"
      "[[Fin 1, Fin 2, Fin 3]]"
      "[lit ''ply'', lit ''format ascii 1.0'', lit ''element vertex 2'',
        lit ''property float x'', lit ''property float y'', lit ''property float z'',
        lit ''end_header'']" "[]" 0 "[]" "[]" "[]"]
  note d = count_within_declared [of ply_ascii_short empty_info "[]" "[]"
      "[lit ''ply'', lit ''format ascii 1.0'', lit ''element vertex 2'',
        lit ''property float x'', lit ''property float y'', lit ''property float z'',
        lit ''end_header'']" "file_lines [lit ''1.0 2.0 3.0''] []" 2 "lit ''ascii''"
      "[lit ''x'', lit ''y'', lit ''z'']" "[[Fin 1, Fin 2, Fin 3]]"]
  have p: "int (length [[Fin 1, Fin 2, Fin 3]]) \<le> max 0 (info_points info_three)"
    using c pcd_trunc_three_header m read_pcd_trunc_three by blast
  have q: "int (length [[Fin 1, Fin 2, Fin 3]]) \<le> max 0 2"
    using d ply_ascii_short_header ply_ascii_short_parse read_ply_ascii_short by blast
  show ?thesis
    using pcd_trunc_three_header m read_pcd_trunc_three p ply_ascii_short_header
      ply_ascii_short_parse read_ply_ascii_short q
    by blast
qed

lemma pcd_ascii_over_header:
  "pcd_header_loop pcd_ascii_over empty_info [] =
     Some (Inr (info_over, [lit ''FIELDS x y z'', lit ''POINTS 1'', lit ''DATA ascii'']))"
  unfolding pcd_ascii_over_def info_over_def
  by (simp add: pcd_header_loop_file_lines pcd_header_line_def py_text_defs empty_info_def
        del: file_lines.simps)

lemma info_over_facts:
  "py_upper (info_data info_over) = lit ''ASCII''" "info_points info_over = 1"
  by (simp_all add: info_over_def empty_info_def info_data_def info_points_def
        py_upper_def lit_def)

lemma pcd_ascii_over_lines:
  "text_readlines pcd_ascii_over =
     Inr (map (\<lambda>l. l @ [10])
            [lit ''FIELDS x y z'', lit ''POINTS 1'', lit ''DATA ascii'',
             lit ''1.0 2.0 3.0'', lit ''4.0 5.0 6.0''])"
  unfolding pcd_ascii_over_def
  by (rule text_readlines_file_lines) (simp add: text_line_def lit_def)

lemma pcd_ascii_points_two:
  "pcd_ascii_points [lit ''1.0 2.0 3.0'' @ [10], lit ''4.0 5.0 6.0'' @ [10]]
   = Inr [[Fin 1, Fin 2, Fin 3], [Fin 4, Fin 5, Fin 6]]"
  by (simp add: py_text_defs)

lemma read_pcd_ascii_over:
  "read_pcd pcd_ascii_over = Some (Inr [[Fin 1, Fin 2, Fin 3], [Fin 4, Fin 5, Fin 6]])"
proof -
  have "drop (data_start_idx
                (map (\<lambda>l. l @ [10])
                   [lit ''FIELDS x y z'', lit ''POINTS 1'', lit ''DATA ascii'',
                    lit ''1.0 2.0 3.0'', lit ''4.0 5.0 6.0'']) 0)
          (map (\<lambda>l. l @ [10])
             [lit ''FIELDS x y z'', lit ''POINTS 1'', lit ''DATA ascii'',
              lit ''1.0 2.0 3.0'', lit ''4.0 5.0 6.0''])
        = [lit ''1.0 2.0 3.0'' @ [10], lit ''4.0 5.0 6.0'' @ [10]]"
    by (simp add: py_text_defs)
  then show ?thesis
    unfolding read_pcd_ascii [OF pcd_ascii_over_header info_over_facts(1)] pcd_ascii_def
      pcd_ascii_over_lines sum.case
    by (simp only: pcd_ascii_points_two)
qed

text \<open>
  Claim C6 as it stands fails on an ASCII PCD file that declares one point and holds two
  lines of numbers: both lines are returned.
\<close>

theorem count_within_declared_counterexample:
  "pcd_header_loop pcd_ascii_over empty_info [] =
     Some (Inr (info_over, [lit ''FIELDS x y z'', lit ''POINTS 1'', lit ''DATA ascii'']))
   \<and> info_points info_over = 1
   \<and> read_pcd pcd_ascii_over = Some (Inr [[Fin 1, Fin 2, Fin 3], [Fin 4, Fin 5, Fin 6]])
   \<and> \<not> int (length [[Fin 1, Fin 2, Fin 3], [Fin 4, Fin 5, Fin 6]]) \<le> info_points info_over"
  using pcd_ascii_over_header info_over_facts(2) read_pcd_ascii_over
  by simp

section \<open>The two byte orders of binary PLY\<close>

lemma ply_read_props_le:
  "ply_read_props unpack_le_f props (payload_le qs) =
     (if length props \<le> length qs
      then Inr (map quad_value (take (length props) qs), payload_le (drop (length props) qs))
      else Inl Struct_error)"
proof (induction props arbitrary: qs)
  case Nil
  then show ?case by simp
next
  case (Cons p props)
  show ?case
  proof (cases qs)
    case Nil
    then show ?thesis by simp
  next
    case (Cons q qs')
    obtain b0 b1 b2 b3 where q: "q = (b0, b1, b2, b3)"
      by (cases q)
    show ?thesis
      using Cons q Cons.IH [of qs'] by (simp add: quad_value_def)
  qed
qed

lemma ply_read_props_be:
  "ply_read_props unpack_be_f props (payload_be qs) =
     (if length props \<le> length qs
      then Inr (map quad_value (take (length props) qs), payload_be (drop (length props) qs))
      else Inl Struct_error)"
proof (induction props arbitrary: qs)
  case Nil
  then show ?case by simp
next
  case (Cons p props)
  show ?case
  proof (cases qs)
    case Nil
    then show ?thesis by simp
  next
    case (Cons q qs')
    obtain b0 b1 b2 b3 where q: "q = (b0, b1, b2, b3)"
      by (cases q)
    show ?thesis
      using Cons q Cons.IH [of qs'] by (simp add: quad_value_def)
  qed
qed

lemma ply_binary_points_le_be:
  "ply_binary_points unpack_le_f n props x y z (payload_le qs)
   = ply_binary_points unpack_be_f n props x y z (payload_be qs)"
proof (induction n arbitrary: qs)
  case 0
  then show ?case by simp
next
  case (Suc n)
  show ?case
    by (simp add: ply_read_props_le ply_read_props_be Suc.IH)
qed

lemma lit_le_be_ascii:
  "lit ''binary_little_endian'' \<noteq> lit ''ascii''"
  "lit ''binary_big_endian'' \<noteq> lit ''ascii''"
  "lit ''binary_big_endian'' \<noteq> lit ''binary_little_endian''"
  by (simp_all add: lit_def)

text \<open>
  Claim C9. Two PLY files, one in \<^verbatim>\<open>binary_little_endian\<close> and one in
  \<^verbatim>\<open>binary_big_endian\<close>, whose headers declare the same vertex count and the same tracked
  properties and whose payloads hold the same numbers, the bytes of each number reversed
  in the second, are read by \<open>read_ply\<close> with the same outcome: the same points, or the
  same error.
\<close>

theorem ply_endianness:
  assumes "ply_header_loop file_le [] = Some (Inr (lines_le, payload_le qs))"
    and "ply_header_loop file_be [] = Some (Inr (lines_be, payload_be qs))"
    and "ply_parse_header lines_le (0, lit ''ascii'', [])
         = Inr (vertex_count, lit ''binary_little_endian'', properties)"
    and "ply_parse_header lines_be (0, lit ''ascii'', [])
         = Inr (vertex_count, lit ''binary_big_endian'', properties)"
  shows "read_ply file_le = read_ply file_be"
  using assms
  by (simp add: read_ply_def ply_payload_def Let_def lit_le_be_ascii ply_binary_points_le_be)

lemma ply_le_header:
  "ply_header_loop ply_le [] = Some (Inr (ply_header_le, payload_le six_numbers))"
  unfolding ply_le_def ply_header_le_def
  by (simp add: ply_header_loop_file_lines py_text_defs del: file_lines.simps(2))

lemma ply_be_header:
  "ply_header_loop ply_be [] = Some (Inr (ply_header_be, payload_be six_numbers))"
  unfolding ply_be_def ply_header_be_def
  by (simp add: ply_header_loop_file_lines py_text_defs del: file_lines.simps(2))

lemma ply_le_be_parse:
  "ply_parse_header ply_header_le (0, lit ''ascii'', [])
   = Inr (2, lit ''binary_little_endian'', [lit ''x'', lit ''y'', lit ''z''])"
  "ply_parse_header ply_header_be (0, lit ''ascii'', [])
   = Inr (2, lit ''binary_big_endian'', [lit ''x'', lit ''y'', lit ''z''])"
  unfolding ply_header_le_def ply_header_be_def
  by (simp_all add: py_text_defs)

lemma read_ply_le: "read_ply ply_le = Some (Inr [[Fin 1, Fin 2, Fin 3], [Fin 4, Fin 5, Fin 6]])"
proof -
  have "read_ply ply_le =
          Some (ply_binary_points unpack_le_f (Suc (Suc 0)) [lit ''x'', lit ''y'', lit ''z'']
                  0 1 2 (payload_le six_numbers))"
    unfolding read_ply_def ply_le_header ply_payload_def option.case sum.case prod.case
      ply_le_be_parse
    by (simp add: lit_def numeral_2_eq_2 del: ply_binary_points.simps)
  then show ?thesis
    by (simp add: six_numbers_def float_of_bits_examples)
qed

theorem ply_endianness_witness:
  "ply_header_loop ply_le [] = Some (Inr (ply_header_le, payload_le six_numbers))
   \<and> ply_header_loop ply_be [] = Some (Inr (ply_header_be, payload_be six_numbers))
   \<and> ply_parse_header ply_header_le (0, lit ''ascii'', [])
       = Inr (2, lit ''binary_little_endian'', [lit ''x'', lit ''y'', lit ''z''])
   \<and> ply_parse_header ply_header_be (0, lit ''ascii'', [])
       = Inr (2, lit ''binary_big_endian'', [lit ''x'', lit ''y'', lit ''z''])
   \<and> read_ply ply_le = Some (Inr [[Fin 1, Fin 2, Fin 3], [Fin 4, Fin 5, Fin 6]])
   \<and> read_ply ply_be = Some (Inr [[Fin 1, Fin 2, Fin 3], [Fin 4, Fin 5, Fin 6]])"
proof -
  have "read_ply ply_le = read_ply ply_be"
    by (rule ply_endianness [OF ply_le_header ply_be_header ply_le_be_parse])
  with read_ply_le ply_le_header ply_be_header ply_le_be_parse show ?thesis
    by simp
qed

end
